theory Spec2Isabelle
  imports Complex_Main "HOL-Library.Word"
begin

unbundle bit_operations_syntax

chapter \<open>Model of \<open>bucatini/backends/artix7.py\<close>\<close>

section \<open>The quad PLL: \<open>GTPQuadPLL.compute_config\<close>\<close>

text \<open>
  \<open>compute_config\<close> is a static method on Python numbers. Its arithmetic is modelled as
  Python performs it: on unbounded ints exactly, on floats with the rounding of IEEE binary64
  after every operation.
\<close>

subsection \<open>Python numbers\<close>

text \<open>
  Nothing in the source fixes the type of the two arguments: a caller passes Python ints or
  floats (\<open>LunaArtix7SerDes\<close> passes the float \<open>5e9\<close> as line rate). A float is an IEEE
  binary64 value: a finite one is modelled by the rational it denotes (the sign of zero is not
  modelled), and the two infinities and NaN are values of their own. A Python int is unbounded.
\<close>

datatype pyfloat = Finite rat | PosInf | NegInf | NaN

datatype pynum = PyInt int | PyFloat pyfloat

text \<open>
  The \<open>ValueError\<close> carries the two floats the source formats into its message,
  \<open>refclk_freq/1e6\<close> and \<open>linerate/1e9\<close>. \<open>OverflowError\<close> is what Python raises when an int
  too large for a float is divided or converted. \<open>AssertionError\<close> is the failure of an
  \<open>assert\<close> (used by \<open>DRPMux.elaborate\<close> below).
\<close>

datatype error = ValueError pyfloat pyfloat | OverflowError | AssertionError

text \<open>
  Rounding to binary64, to nearest with ties to even. \<open>bit_length n\<close> is the number of binary
  digits of \<open>n\<close>; \<open>ilog2 x\<close> is the integer \<open>e\<close> with \<open>2^e \<le> |x| < 2^(e+1)\<close> (for
  \<open>x \<noteq> 0\<close>). A double has 53 significant bits, so around \<open>x\<close> the doubles are the multiples
  of \<open>2^(e - 52)\<close>, and of \<open>2^(-1074)\<close> below the smallest normal number \<open>2^(-1022)\<close>.
  A result of magnitude \<open>(2 - 2^(-53)) * 2^1023\<close> or more rounds to an infinity.
\<close>

fun bit_length :: "nat \<Rightarrow> nat" where
  "bit_length n = (if n = 0 then 0 else Suc (bit_length (n div 2)))"

declare bit_length.simps [simp del]

definition pow2 :: "int \<Rightarrow> rat" where
  "pow2 e = (if 0 \<le> e then 2 ^ nat e else 1 / 2 ^ nat (- e))"

definition ilog2 :: "rat \<Rightarrow> int" where
  "ilog2 x =
     (if 1 \<le> \<bar>x\<bar> then int (bit_length (nat \<lfloor>\<bar>x\<bar>\<rfloor>)) - 1
      else - int (bit_length (nat (\<lceil>1 / \<bar>x\<bar>\<rceil> - 1))))"

definition round_half_even :: "rat \<Rightarrow> int" where
  "round_half_even q =
     (if q - of_int \<lfloor>q\<rfloor> < 1 / 2 then \<lfloor>q\<rfloor>
      else if 1 / 2 < q - of_int \<lfloor>q\<rfloor> then \<lfloor>q\<rfloor> + 1
      else if even \<lfloor>q\<rfloor> then \<lfloor>q\<rfloor> else \<lfloor>q\<rfloor> + 1)"

definition round64 :: "rat \<Rightarrow> rat" where
  "round64 x =
     (if x = 0 then 0
      else of_int (round_half_even (x / pow2 (max (ilog2 x) (- 1022) - 52)))
           * pow2 (max (ilog2 x) (- 1022) - 52))"

definition double_of :: "rat \<Rightarrow> pyfloat" where
  "double_of x =
     (if (2 - 1 / 2 ^ 53) * 2 ^ 1023 \<le> x then PosInf
      else if x \<le> - ((2 - 1 / 2 ^ 53) * 2 ^ 1023) then NegInf
      else Finite (round64 x))"

text \<open>
  The operations the source applies. A float is multiplied by a small positive int (the int
  is converted exactly) and divided by a positive constant; an int is multiplied exactly, and
  divided by an int (\<open>/\<close> on two ints gives the correctly rounded quotient, or
  \<open>OverflowError\<close>) or converted to a float to be divided by a float. \<open>==\<close> compares a float
  with a float or an int by value; NaN equals nothing.
\<close>

fun fmul :: "pyfloat \<Rightarrow> rat \<Rightarrow> pyfloat" where
  "fmul (Finite x) c = double_of (x * c)"
| "fmul PosInf c = PosInf"
| "fmul NegInf c = NegInf"
| "fmul NaN c = NaN"

fun fdiv :: "pyfloat \<Rightarrow> rat \<Rightarrow> pyfloat" where
  "fdiv (Finite x) c = double_of (x / c)"
| "fdiv PosInf c = PosInf"
| "fdiv NegInf c = NegInf"
| "fdiv NaN c = NaN"

definition raise_if_infinite :: "pyfloat \<Rightarrow> error + pyfloat" where
  "raise_if_infinite f = (if f = PosInf \<or> f = NegInf then Inl OverflowError else Inr f)"

fun py_mul_int :: "pynum \<Rightarrow> int \<Rightarrow> pynum" where
  "py_mul_int (PyInt k) n = PyInt (k * n)"
| "py_mul_int (PyFloat f) n = PyFloat (fmul f (of_int n))"

fun py_div_int :: "pynum \<Rightarrow> int \<Rightarrow> error + pyfloat" where
  "py_div_int (PyInt k) n = raise_if_infinite (double_of (of_int k / of_int n))"
| "py_div_int (PyFloat f) n = Inr (fdiv f (of_int n))"

fun py_div_float :: "pynum \<Rightarrow> rat \<Rightarrow> error + pyfloat" where
  "py_div_float (PyInt k) c =
     (case raise_if_infinite (double_of (of_int k)) of
        Inl e \<Rightarrow> Inl e
      | Inr f \<Rightarrow> Inr (fdiv f c))"
| "py_div_float (PyFloat f) c = Inr (fdiv f c)"

fun float_eq :: "pyfloat \<Rightarrow> pynum \<Rightarrow> bool" where
  "float_eq (Finite x) (PyInt k) = (x = of_int k)"
| "float_eq (Finite x) (PyFloat (Finite y)) = (x = y)"
| "float_eq PosInf (PyFloat PosInf) = True"
| "float_eq NegInf (PyFloat NegInf) = True"
| "float_eq f y = False"

text \<open>\<open>1.6e9 <= vco_freq <= 3.3e9\<close>: no infinity and no NaN is in the range.\<close>

fun vco_in_range :: "pyfloat \<Rightarrow> bool" where
  "vco_in_range (Finite v) = (1600000000 \<le> v \<and> v \<le> 3300000000)"
| "vco_in_range f = False"

subsection \<open>The search\<close>

text \<open>
  The returned dictionary becomes a record; its keys \<open>n1\<close>, \<open>n2\<close>, \<open>m\<close>, \<open>d\<close>, \<open>vco_freq\<close>,
  \<open>clkin\<close>, \<open>linerate\<close> carry the prefix \<open>cfg_\<close> so that the one-letter names stay free for
  variables.
\<close>

record RateConfig =
  cfg_n1 :: nat
  cfg_n2 :: nat
  cfg_m :: nat
  cfg_d :: nat
  cfg_vco_freq :: pyfloat
  cfg_clkin :: pynum
  cfg_linerate :: pynum

text \<open>\<open>vco_freq = refclk_freq*(n1*n2)/m\<close> and \<open>current_linerate = vco_freq*2/d\<close>.\<close>

definition vco_freq_of :: "pynum \<Rightarrow> nat \<Rightarrow> nat \<Rightarrow> nat \<Rightarrow> error + pyfloat" where
  "vco_freq_of refclk_freq n1 n2 m = py_div_int (py_mul_int refclk_freq (int (n1 * n2))) (int m)"

definition linerate_of :: "pyfloat \<Rightarrow> nat \<Rightarrow> pyfloat" where
  "linerate_of vco_freq d = fdiv (fmul vco_freq 2) (of_nat d)"

definition mk_config :: "pynum \<Rightarrow> pynum \<Rightarrow> nat \<Rightarrow> nat \<Rightarrow> nat \<Rightarrow> nat \<Rightarrow> pyfloat \<Rightarrow> RateConfig" where
  "mk_config refclk_freq linerate n1 n2 m d vco_freq =
     \<lparr>cfg_n1 = n1, cfg_n2 = n2, cfg_m = m, cfg_d = d, cfg_vco_freq = vco_freq,
      cfg_clkin = refclk_freq, cfg_linerate = linerate\<rparr>"

text \<open>
  The four nested \<open>for\<close> loops, innermost first. Each returns at the first hit; an exception
  raised while \<open>vco_freq\<close> is computed ends the search.
\<close>

fun loop_d ::
  "pynum \<Rightarrow> pynum \<Rightarrow> nat \<Rightarrow> nat \<Rightarrow> nat \<Rightarrow> pyfloat \<Rightarrow> nat list \<Rightarrow> RateConfig option" where
  "loop_d refclk_freq linerate n1 n2 m vco_freq [] = None"
| "loop_d refclk_freq linerate n1 n2 m vco_freq (d # ds) =
     (let current_linerate = linerate_of vco_freq d
      in if float_eq current_linerate linerate
         then Some (mk_config refclk_freq linerate n1 n2 m d vco_freq)
         else loop_d refclk_freq linerate n1 n2 m vco_freq ds)"

fun loop_m :: "pynum \<Rightarrow> pynum \<Rightarrow> nat \<Rightarrow> nat \<Rightarrow> nat list \<Rightarrow> error + RateConfig option" where
  "loop_m refclk_freq linerate n1 n2 [] = Inr None"
| "loop_m refclk_freq linerate n1 n2 (m # ms) =
     (case vco_freq_of refclk_freq n1 n2 m of
        Inl e \<Rightarrow> Inl e
      | Inr vco_freq \<Rightarrow>
          if vco_in_range vco_freq
          then (case loop_d refclk_freq linerate n1 n2 m vco_freq [1, 2, 4, 8, 16] of
                  Some c \<Rightarrow> Inr (Some c)
                | None \<Rightarrow> loop_m refclk_freq linerate n1 n2 ms)
          else loop_m refclk_freq linerate n1 n2 ms)"

fun loop_n2 :: "pynum \<Rightarrow> pynum \<Rightarrow> nat \<Rightarrow> nat list \<Rightarrow> error + RateConfig option" where
  "loop_n2 refclk_freq linerate n1 [] = Inr None"
| "loop_n2 refclk_freq linerate n1 (n2 # n2s) =
     (case loop_m refclk_freq linerate n1 n2 [1, 2] of
        Inl e \<Rightarrow> Inl e
      | Inr (Some c) \<Rightarrow> Inr (Some c)
      | Inr None \<Rightarrow> loop_n2 refclk_freq linerate n1 n2s)"

fun loop_n1 :: "pynum \<Rightarrow> pynum \<Rightarrow> nat list \<Rightarrow> error + RateConfig option" where
  "loop_n1 refclk_freq linerate [] = Inr None"
| "loop_n1 refclk_freq linerate (n1 # n1s) =
     (case loop_n2 refclk_freq linerate n1 [1, 2, 3, 4, 5] of
        Inl e \<Rightarrow> Inl e
      | Inr (Some c) \<Rightarrow> Inr (Some c)
      | Inr None \<Rightarrow> loop_n1 refclk_freq linerate n1s)"

text \<open>
  After the loops: \<open>raise ValueError(msg.format(refclk_freq/1e6, linerate/1e9))\<close>. The two
  quotients are computed first, and either may raise for an int beyond the range of a float.
\<close>

definition no_config_found :: "pynum \<Rightarrow> pynum \<Rightarrow> error" where
  "no_config_found refclk_freq linerate =
     (case py_div_float refclk_freq 1000000 of
        Inl e \<Rightarrow> e
      | Inr mhz \<Rightarrow>
          (case py_div_float linerate 1000000000 of
             Inl e \<Rightarrow> e
           | Inr gbps \<Rightarrow> ValueError mhz gbps))"

definition compute_config :: "pynum \<Rightarrow> pynum \<Rightarrow> error + RateConfig" where
  "compute_config refclk_freq linerate =
     (case loop_n1 refclk_freq linerate [4, 5] of
        Inl e \<Rightarrow> Inl e
      | Inr (Some c) \<Rightarrow> Inr c
      | Inr None \<Rightarrow> Inl (no_config_found refclk_freq linerate))"

text \<open>
  The claims speak of ``the first combination of the grid in the fixed nested order''. That
  wording is written down separately, to be compared with the loops above: \<open>grid\<close> lists the
  combinations in nested order (\<open>n1\<close> outermost, \<open>d\<close> innermost), \<open>feasible\<close> is the pair of
  constraints as the source evaluates them, \<open>first_feasible\<close> the first grid point satisfying
  them, and \<open>precedes\<close> the nested (lexicographic) order itself.
\<close>

definition grid_d :: "nat \<Rightarrow> nat \<Rightarrow> nat \<Rightarrow> (nat \<times> nat \<times> nat \<times> nat) list" where
  "grid_d n1 n2 m = map (\<lambda>d. (n1, n2, m, d)) [1, 2, 4, 8, 16]"

definition grid_m :: "nat \<Rightarrow> nat \<Rightarrow> (nat \<times> nat \<times> nat \<times> nat) list" where
  "grid_m n1 n2 = concat (map (grid_d n1 n2) [1, 2])"

definition grid_n2 :: "nat \<Rightarrow> (nat \<times> nat \<times> nat \<times> nat) list" where
  "grid_n2 n1 = concat (map (grid_m n1) [1, 2, 3, 4, 5])"

definition grid :: "(nat \<times> nat \<times> nat \<times> nat) list" where
  "grid = concat (map grid_n2 [4, 5])"

fun feasible :: "pynum \<Rightarrow> pynum \<Rightarrow> nat \<times> nat \<times> nat \<times> nat \<Rightarrow> bool" where
  "feasible refclk_freq linerate (n1, n2, m, d) =
     (case vco_freq_of refclk_freq n1 n2 m of
        Inl e \<Rightarrow> False
      | Inr vco_freq \<Rightarrow>
          vco_in_range vco_freq \<and> float_eq (linerate_of vco_freq d) linerate)"

definition first_feasible :: "pynum \<Rightarrow> pynum \<Rightarrow> (nat \<times> nat \<times> nat \<times> nat) option" where
  "first_feasible refclk_freq linerate = find (feasible refclk_freq linerate) grid"

fun precedes :: "nat \<times> nat \<times> nat \<times> nat \<Rightarrow> nat \<times> nat \<times> nat \<times> nat \<Rightarrow> bool" where
  "precedes (a, b, c, e) (a', b', c', e') =
     (a < a' \<or> a = a' \<and> (b < b' \<or> b = b' \<and> (c < c' \<or> c = c' \<and> e < e')))"

text \<open>
  The search as one pass over a list of grid points: it stops at the first point at which
  computing \<open>vco_freq\<close> raises or both constraints hold, with the outcome of that point.
\<close>

fun raises :: "pynum \<Rightarrow> nat \<times> nat \<times> nat \<times> nat \<Rightarrow> bool" where
  "raises refclk_freq (n1, n2, m, d) =
     (case vco_freq_of refclk_freq n1 n2 m of Inl e \<Rightarrow> True | Inr vco_freq \<Rightarrow> False)"

fun result_at :: "pynum \<Rightarrow> pynum \<Rightarrow> nat \<times> nat \<times> nat \<times> nat \<Rightarrow> error + RateConfig option" where
  "result_at refclk_freq linerate (n1, n2, m, d) =
     (case vco_freq_of refclk_freq n1 n2 m of
        Inl e \<Rightarrow> Inl e
      | Inr vco_freq \<Rightarrow> Inr (Some (mk_config refclk_freq linerate n1 n2 m d vco_freq)))"

definition search ::
  "pynum \<Rightarrow> pynum \<Rightarrow> (nat \<times> nat \<times> nat \<times> nat) list \<Rightarrow> error + RateConfig option" where
  "search refclk_freq linerate ps =
     (case find (\<lambda>p. raises refclk_freq p \<or> feasible refclk_freq linerate p) ps of
        None \<Rightarrow> Inr None
      | Some p \<Rightarrow> result_at refclk_freq linerate p)"

section \<open>Synchronous logic: widths, clock domains, inserted resets\<close>

text \<open>
  The classes of the file are nMigen elaboratables: each describes registers (assignments
  through \<open>m.d.<domain>\<close>) and combinational signals (\<open>m.d.comb\<close>). A class becomes a record
  of its registers, a function from the registers and the inputs of a tick to the
  combinational signals of that tick, and a function \<open>_tick\<close> giving the registers after the
  clock edge. A combinational signal that no active statement drives has its reset value, 0.

  \<open>Signal(range(t + 1))\<close> is as wide as \<open>bits_for t\<close>: the bit length of \<open>t\<close>, and one bit
  for \<open>t = 0\<close>. An assignment to a signal keeps the low bits that fit.
\<close>

definition bits_for :: "nat \<Rightarrow> nat" where
  "bits_for n = (if n = 0 then 1 else bit_length n)"

text \<open>
  \<open>ResetInserter(controls)\<close> takes a mapping from clock-domain names to reset signals and
  resets, while the signal of a domain is high, the registers driven from that domain.
  Given a single signal instead of a mapping, as in \<open>ResetInserter(reset_self)(m)\<close>, the
  mapping is \<open>{"sync": reset_self}\<close>: only the domain named \<open>sync\<close> is controlled
  (nMigen's \<open>ControlInserter\<close> begins with \<open>if isinstance(controls, Value): controls =
  {"sync": controls}\<close>, and its language guide gives \<open>Modifier(input)(elaboratable)\<close> as the
  short form of \<open>Modifier({"sync": input})(elaboratable)\<close>). The two domains that occur in
  the bringup controllers are \<open>sync\<close> and \<open>ss\<close>.
\<close>

datatype domain = Dom_sync | Dom_ss

definition ResetInserter :: "bool \<Rightarrow> (domain \<rightharpoonup> bool)" where
  "ResetInserter control = [Dom_sync \<mapsto> control]"

definition in_reset :: "(domain \<rightharpoonup> bool) \<Rightarrow> domain \<Rightarrow> bool" where
  "in_reset controls clock_domain = (controls clock_domain = Some True)"

section \<open>\<open>WaitTimer\<close>\<close>

text \<open>
  One register, \<open>count\<close>, of width \<open>bits_for t\<close> and reset value \<open>t\<close>, in domain \<open>ss\<close>;
  \<open>done\<close> is combinational.
\<close>

record WaitTimer_regs =
  wt_count :: nat

definition WaitTimer_reset :: "nat \<Rightarrow> WaitTimer_regs" where
  "WaitTimer_reset t = \<lparr>wt_count = t\<rparr>"

definition WaitTimer_done :: "WaitTimer_regs \<Rightarrow> bool" where
  "WaitTimer_done s = (wt_count s = 0)"

definition WaitTimer_tick :: "nat \<Rightarrow> bool \<Rightarrow> WaitTimer_regs \<Rightarrow> WaitTimer_regs" where
  "WaitTimer_tick t wait s =
     (if wait then
        (if \<not> WaitTimer_done s
         then s\<lparr>wt_count := (wt_count s + 1) mod 2 ^ bits_for t\<rparr>
         else s)
      else s\<lparr>wt_count := t\<rparr>)"

text \<open>The timer after a sequence of ticks, given the value of \<open>wait\<close> in each.\<close>

definition WaitTimer_run :: "nat \<Rightarrow> bool list \<Rightarrow> WaitTimer_regs \<Rightarrow> WaitTimer_regs" where
  "WaitTimer_run t waits s = foldl (\<lambda>s wait. WaitTimer_tick t wait s) s waits"

section \<open>\<open>DRPInterface\<close> and \<open>DRPMux\<close>\<close>

text \<open>
  The record \<open>DRPInterface\<close> has the fields \<open>en\<close>, \<open>we\<close>, \<open>addr\<close> (9 bits), \<open>di\<close> (16 bits),
  driven by the requester (\<open>DIR_C_TO_P\<close>), and \<open>rdy\<close>, \<open>do\<close> (16 bits), driven by the
  device (\<open>DIR_P_TO_C\<close>). The two directions are two records here. The field \<open>clk\<close> carries
  the clock itself and has no value in a tick-level model.
\<close>

record drp_c2p =
  drp_en :: bool
  drp_we :: bool
  drp_addr :: "9 word"
  drp_di :: "16 word"

record drp_p2c =
  drp_rdy :: bool
  drp_do :: "16 word"

definition drp_c2p_idle :: drp_c2p where
  "drp_c2p_idle = \<lparr>drp_en = False, drp_we = False, drp_addr = 0, drp_di = 0\<rparr>"

definition drp_p2c_idle :: drp_p2c where
  "drp_p2c_idle = \<lparr>drp_rdy = False, drp_do = 0\<rparr>"

text \<open>
  \<open>with m.Switch(self.sel): for i, interface in enumerate(self.interfaces): with m.Case(i):
  m.d.comb += interface.connect(self)\<close>. The statement \<open>interface.connect(self)\<close> drives the
  mux's own requester-side fields from the interface and the interface's \<open>rdy\<close> and \<open>do\<close> from
  the mux (the physical bus). A case is active when the 4-bit selector equals its index; there
  is no default case. The result is the requester-side lines of the bus and, for each
  interface in order, the lines it gets back.
\<close>

definition DRPMux_case ::
  "4 word \<Rightarrow> drp_p2c \<Rightarrow> nat \<times> drp_c2p \<Rightarrow> drp_c2p \<times> drp_p2c list \<Rightarrow> drp_c2p \<times> drp_p2c list" where
  "DRPMux_case sel bus c acc =
     (case c of (i, interface) \<Rightarrow>
        (case acc of (mux, backs) \<Rightarrow>
           if unat sel = i then (interface, backs[i := bus]) else (mux, backs)))"

definition DRPMux_connect :: "4 word \<Rightarrow> drp_c2p list \<Rightarrow> drp_p2c \<Rightarrow> drp_c2p \<times> drp_p2c list" where
  "DRPMux_connect sel interfaces bus =
     fold (DRPMux_case sel bus) (enumerate 0 interfaces)
       (drp_c2p_idle, replicate (length interfaces) drp_p2c_idle)"

definition DRPMux_elaborate ::
  "4 word \<Rightarrow> drp_c2p list \<Rightarrow> drp_p2c \<Rightarrow> error + drp_c2p \<times> drp_p2c list" where
  "DRPMux_elaborate sel interfaces bus =
     (if length interfaces \<le> 16 then Inr (DRPMux_connect sel interfaces bus)
      else Inl AssertionError)"

section \<open>\<open>GTPTXInit\<close>\<close>

text \<open>
  The states of the FSM in the order of the source; the first one is the reset state. The
  outputs of the five \<open>FFSynchronizer\<close>s (the local signals \<open>plllock\<close>, \<open>txresetdone\<close>,
  \<open>txdlysresetdone\<close>, \<open>txphinitdone\<close>, \<open>txphaligndone\<close>) are inputs of a tick, as are
  \<open>restart\<close> and \<open>drp_done\<close>; of these the source reads only the four below.
\<close>

datatype tx_state =
  TX_POWER_DOWN | TX_DRP | TX_WAIT_PLL_RESET | TX_WAIT_INIT_DELAY | TX_WAIT_GTP_RESET | TX_READY

record GTPTXInit_in =
  tx_restart :: bool
  tx_plllock :: bool
  txresetdone :: bool
  txphaligndone :: bool
  tx_drp_done :: bool

text \<open>
  The combinational signals: the seven local signals the FSM drives (\<open>gttxreset\<close> to
  \<open>txuserrdy\<close>), the ports \<open>pllreset\<close>, \<open>drp_start\<close> and \<open>done\<close>, and the state \<open>m.next\<close>
  selects.
\<close>

record GTPTXInit_comb =
  gttxreset :: bool
  gttxpd :: bool
  txdlysreset :: bool
  txphinit :: bool
  txphalign :: bool
  txdlyen :: bool
  txuserrdy :: bool
  pllreset :: bool
  drp_start :: bool
  tx_done :: bool
  tx_next :: tx_state

text \<open>
  The registers, all in domain \<open>ss\<close>: the FSM state, the seven ports \<open>self.gttxreset\<close> to
  \<open>self.txuserrdy\<close>, \<open>txphaligndone_r\<close> (reset value 1), and the counters of the two timers.
\<close>

record GTPTXInit_regs =
  tx_fsm_state :: tx_state
  self_gttxreset :: bool
  self_gttxpd :: bool
  self_txdlysreset :: bool
  self_txphinit :: bool
  self_txphalign :: bool
  self_txdlyen :: bool
  self_txuserrdy :: bool
  txphaligndone_r :: bool
  tx_init_delay :: WaitTimer_regs
  tx_watchdog :: WaitTimer_regs

definition GTPTXInit_quiet :: "tx_state \<Rightarrow> GTPTXInit_comb" where
  "GTPTXInit_quiet st =
     \<lparr>gttxreset = False, gttxpd = False, txdlysreset = False, txphinit = False,
      txphalign = False, txdlyen = False, txuserrdy = False, pllreset = False,
      drp_start = False, tx_done = False, tx_next = st\<rparr>"

fun GTPTXInit_fsm :: "GTPTXInit_in \<Rightarrow> bool \<Rightarrow> tx_state \<Rightarrow> GTPTXInit_comb" where
  "GTPTXInit_fsm i init_delay_done TX_POWER_DOWN =
     (GTPTXInit_quiet TX_POWER_DOWN)
       \<lparr>gttxreset := True, gttxpd := True, pllreset := True, tx_next := TX_DRP\<rparr>"
| "GTPTXInit_fsm i init_delay_done TX_DRP =
     (GTPTXInit_quiet TX_DRP)
       \<lparr>gttxreset := True, pllreset := True, drp_start := True,
        tx_next := (if tx_drp_done i then TX_WAIT_PLL_RESET else TX_DRP)\<rparr>"
| "GTPTXInit_fsm i init_delay_done TX_WAIT_PLL_RESET =
     (GTPTXInit_quiet TX_WAIT_PLL_RESET)
       \<lparr>gttxreset := True,
        tx_next := (if tx_plllock i then TX_WAIT_INIT_DELAY else TX_WAIT_PLL_RESET)\<rparr>"
| "GTPTXInit_fsm i init_delay_done TX_WAIT_INIT_DELAY =
     (GTPTXInit_quiet TX_WAIT_INIT_DELAY)
       \<lparr>gttxreset := True,
        tx_next := (if init_delay_done then TX_WAIT_GTP_RESET else TX_WAIT_INIT_DELAY)\<rparr>"
| "GTPTXInit_fsm i init_delay_done TX_WAIT_GTP_RESET =
     (GTPTXInit_quiet TX_WAIT_GTP_RESET)
       \<lparr>txuserrdy := True,
        tx_next := (if txresetdone i then TX_READY else TX_WAIT_GTP_RESET)\<rparr>"
| "GTPTXInit_fsm i init_delay_done TX_READY =
     (GTPTXInit_quiet TX_READY)
       \<lparr>txuserrdy := True, txdlyen := True, tx_done := True,
        tx_next := (if tx_restart i then TX_POWER_DOWN else TX_READY)\<rparr>"

definition GTPTXInit_signals :: "GTPTXInit_in \<Rightarrow> GTPTXInit_regs \<Rightarrow> GTPTXInit_comb" where
  "GTPTXInit_signals i s =
     GTPTXInit_fsm i (WaitTimer_done (tx_init_delay s)) (tx_fsm_state s)"

text \<open>\<open>reset_self = self.restart | watchdog.done\<close> and the watchdog's \<open>wait\<close> input.\<close>

definition GTPTXInit_reset_self :: "GTPTXInit_in \<Rightarrow> GTPTXInit_regs \<Rightarrow> bool" where
  "GTPTXInit_reset_self i s = (tx_restart i \<or> WaitTimer_done (tx_watchdog s))"

definition GTPTXInit_watchdog_wait :: "GTPTXInit_in \<Rightarrow> GTPTXInit_regs \<Rightarrow> bool" where
  "GTPTXInit_watchdog_wait i s =
     (\<not> GTPTXInit_reset_self i s \<and> \<not> tx_done (GTPTXInit_signals i s))"

text \<open>
  The timers are created with \<open>int(500e-9 * ss_clock_frequency)\<close> and
  \<open>int(1e-3 * ss_clock_frequency)\<close> ticks; the two numbers are the parameters \<open>t_init\<close> and
  \<open>t_wd\<close> (62 and 125000 at the default 125 MHz).
\<close>

definition GTPTXInit_reset :: "nat \<Rightarrow> nat \<Rightarrow> GTPTXInit_regs" where
  "GTPTXInit_reset t_init t_wd =
     \<lparr>tx_fsm_state = TX_POWER_DOWN,
      self_gttxreset = False, self_gttxpd = False, self_txdlysreset = False,
      self_txphinit = False, self_txphalign = False, self_txdlyen = False,
      self_txuserrdy = False, txphaligndone_r = True,
      tx_init_delay = WaitTimer_reset t_init, tx_watchdog = WaitTimer_reset t_wd\<rparr>"

text \<open>
  One clock edge of domain \<open>ss\<close>. The module is returned as \<open>ResetInserter(reset_self)(m)\<close>:
  where the inserted reset controls the domain of the registers, every register (those of the
  submodules too) takes its reset value while \<open>reset_self\<close> is high.
\<close>

definition GTPTXInit_tick :: "nat \<Rightarrow> nat \<Rightarrow> GTPTXInit_in \<Rightarrow> GTPTXInit_regs \<Rightarrow> GTPTXInit_regs" where
  "GTPTXInit_tick t_init t_wd i s =
     (let c = GTPTXInit_signals i s in
      if in_reset (ResetInserter (GTPTXInit_reset_self i s)) Dom_ss
      then GTPTXInit_reset t_init t_wd
      else
        \<lparr>tx_fsm_state = tx_next c,
         self_gttxreset = gttxreset c, self_gttxpd = gttxpd c,
         self_txdlysreset = txdlysreset c, self_txphinit = txphinit c,
         self_txphalign = txphalign c, self_txdlyen = txdlyen c,
         self_txuserrdy = txuserrdy c,
         txphaligndone_r = txphaligndone i,
         tx_init_delay = WaitTimer_tick t_init True (tx_init_delay s),
         tx_watchdog = WaitTimer_tick t_wd (GTPTXInit_watchdog_wait i s) (tx_watchdog s)\<rparr>)"

definition GTPTXInit_run ::
  "nat \<Rightarrow> nat \<Rightarrow> GTPTXInit_in list \<Rightarrow> GTPTXInit_regs \<Rightarrow> GTPTXInit_regs" where
  "GTPTXInit_run t_init t_wd inputs s = foldl (\<lambda>s i. GTPTXInit_tick t_init t_wd i s) s inputs"

section \<open>\<open>GTPRXInit\<close>\<close>

text \<open>
  As for the transmitter. The inputs of a tick are \<open>restart\<close>, the synchronised
  \<open>rxresetdone\<close> and \<open>rxpmaresetdone\<close>, and the lines \<open>rdy\<close> and \<open>do\<close> of \<open>self.drp\<close>.
\<close>

datatype rx_state =
  RX_POWER_DOWN | RX_DRP_READ_ISSUE | RX_DRP_READ_ISSUE_POST | RX_DRP_READ_WAIT
  | RX_DRP_MOD_ISSUE | RX_DRP_MOD_WAIT | RX_WAIT_PMARST_FALL | RX_DRP_RESTORE_ISSUE
  | RX_DRP_RESTORE_WAIT | RX_WAIT_GTP_RESET | RX_READY

record GTPRXInit_in =
  rx_restart :: bool
  rxresetdone :: bool
  rxpmaresetdone :: bool
  rx_drp_back :: drp_p2c

record GTPRXInit_comb =
  gtrxreset :: bool
  gtrxpd :: bool
  rxdlysreset :: bool
  rxphalign :: bool
  rxuserrdy :: bool
  rx_done :: bool
  drpmask :: bool
  rx_drp_en :: bool
  rx_drp_we :: bool
  rx_next :: rx_state
  drpvalue_next :: "16 word"

record GTPRXInit_regs =
  rx_fsm_state :: rx_state
  drpvalue :: "16 word"
  rxpmaresetdone_r :: bool
  self_gtrxreset :: bool
  self_gtrxpd :: bool
  self_rxdlysreset :: bool
  self_rxphalign :: bool
  self_rxuserrdy :: bool
  rx_init_delay :: WaitTimer_regs
  rx_watchdog :: WaitTimer_regs

text \<open>
  \<open>GTPRXInit_quiet\<close> is a state in which nothing is driven and nothing assigned: the state
  and \<open>drpvalue\<close> keep their values.
\<close>

definition GTPRXInit_quiet :: "GTPRXInit_regs \<Rightarrow> GTPRXInit_comb" where
  "GTPRXInit_quiet s =
     \<lparr>gtrxreset = False, gtrxpd = False, rxdlysreset = False, rxphalign = False,
      rxuserrdy = False, rx_done = False, drpmask = False, rx_drp_en = False,
      rx_drp_we = False, rx_next = rx_fsm_state s, drpvalue_next = drpvalue s\<rparr>"

fun GTPRXInit_fsm ::
  "GTPRXInit_in \<Rightarrow> bool \<Rightarrow> GTPRXInit_regs \<Rightarrow> rx_state \<Rightarrow> GTPRXInit_comb" where
  "GTPRXInit_fsm i init_delay_done s RX_POWER_DOWN =
     (GTPRXInit_quiet s)\<lparr>gtrxreset := True, gtrxpd := True, rx_next := RX_DRP_READ_ISSUE\<rparr>"
| "GTPRXInit_fsm i init_delay_done s RX_DRP_READ_ISSUE =
     (GTPRXInit_quiet s)
       \<lparr>gtrxreset := True,
        rx_next := (if init_delay_done then RX_DRP_READ_ISSUE_POST else RX_DRP_READ_ISSUE)\<rparr>"
| "GTPRXInit_fsm i init_delay_done s RX_DRP_READ_ISSUE_POST =
     (GTPRXInit_quiet s)\<lparr>gtrxreset := True, rx_drp_en := True, rx_next := RX_DRP_READ_WAIT\<rparr>"
| "GTPRXInit_fsm i init_delay_done s RX_DRP_READ_WAIT =
     (if drp_rdy (rx_drp_back i)
      then (GTPRXInit_quiet s)
             \<lparr>gtrxreset := True, rx_next := RX_DRP_MOD_ISSUE,
              drpvalue_next := drp_do (rx_drp_back i)\<rparr>
      else (GTPRXInit_quiet s)\<lparr>gtrxreset := True\<rparr>)"
| "GTPRXInit_fsm i init_delay_done s RX_DRP_MOD_ISSUE =
     (GTPRXInit_quiet s)
       \<lparr>gtrxreset := True, drpmask := True, rx_drp_en := True, rx_drp_we := True,
        rx_next := RX_DRP_MOD_WAIT\<rparr>"
| "GTPRXInit_fsm i init_delay_done s RX_DRP_MOD_WAIT =
     (GTPRXInit_quiet s)
       \<lparr>gtrxreset := True,
        rx_next := (if drp_rdy (rx_drp_back i) then RX_WAIT_PMARST_FALL else RX_DRP_MOD_WAIT)\<rparr>"
| "GTPRXInit_fsm i init_delay_done s RX_WAIT_PMARST_FALL =
     (GTPRXInit_quiet s)
       \<lparr>rxuserrdy := True,
        rx_next := (if rxpmaresetdone_r s \<and> \<not> rxpmaresetdone i
                    then RX_DRP_RESTORE_ISSUE else RX_WAIT_PMARST_FALL)\<rparr>"
| "GTPRXInit_fsm i init_delay_done s RX_DRP_RESTORE_ISSUE =
     (GTPRXInit_quiet s)
       \<lparr>rxuserrdy := True, rx_drp_en := True, rx_drp_we := True,
        rx_next := RX_DRP_RESTORE_WAIT\<rparr>"
| "GTPRXInit_fsm i init_delay_done s RX_DRP_RESTORE_WAIT =
     (GTPRXInit_quiet s)
       \<lparr>rxuserrdy := True,
        rx_next := (if drp_rdy (rx_drp_back i) then RX_WAIT_GTP_RESET else RX_DRP_RESTORE_WAIT)\<rparr>"
| "GTPRXInit_fsm i init_delay_done s RX_WAIT_GTP_RESET =
     (GTPRXInit_quiet s)
       \<lparr>rxuserrdy := True,
        rx_next := (if rxresetdone i then RX_READY else RX_WAIT_GTP_RESET)\<rparr>"
| "GTPRXInit_fsm i init_delay_done s RX_READY =
     (GTPRXInit_quiet s)
       \<lparr>rxuserrdy := True, rx_done := True,
        rx_next := (if rx_restart i then RX_POWER_DOWN else RX_READY)\<rparr>"

definition GTPRXInit_signals :: "GTPRXInit_in \<Rightarrow> GTPRXInit_regs \<Rightarrow> GTPRXInit_comb" where
  "GTPRXInit_signals i s =
     GTPRXInit_fsm i (WaitTimer_done (rx_init_delay s)) s (rx_fsm_state s)"


definition GTPRXInit_reset_self :: "GTPRXInit_in \<Rightarrow> GTPRXInit_regs \<Rightarrow> bool" where
  "GTPRXInit_reset_self i s = (WaitTimer_done (rx_watchdog s) \<or> rx_restart i)"

definition GTPRXInit_watchdog_wait :: "GTPRXInit_in \<Rightarrow> GTPRXInit_regs \<Rightarrow> bool" where
  "GTPRXInit_watchdog_wait i s =
     (\<not> GTPRXInit_reset_self i s \<and> \<not> rx_done (GTPRXInit_signals i s))"

definition GTPRXInit_reset :: "nat \<Rightarrow> nat \<Rightarrow> GTPRXInit_regs" where
  "GTPRXInit_reset t_init t_wd =
     \<lparr>rx_fsm_state = RX_POWER_DOWN, drpvalue = 0, rxpmaresetdone_r = False,
      self_gtrxreset = False, self_gtrxpd = False, self_rxdlysreset = False,
      self_rxphalign = False, self_rxuserrdy = False,
      rx_init_delay = WaitTimer_reset t_init, rx_watchdog = WaitTimer_reset t_wd\<rparr>"

definition GTPRXInit_tick :: "nat \<Rightarrow> nat \<Rightarrow> GTPRXInit_in \<Rightarrow> GTPRXInit_regs \<Rightarrow> GTPRXInit_regs" where
  "GTPRXInit_tick t_init t_wd i s =
     (let c = GTPRXInit_signals i s in
      if in_reset (ResetInserter (GTPRXInit_reset_self i s)) Dom_ss
      then GTPRXInit_reset t_init t_wd
      else
        \<lparr>rx_fsm_state = rx_next c,
         drpvalue = drpvalue_next c,
         rxpmaresetdone_r = rxpmaresetdone i,
         self_gtrxreset = gtrxreset c, self_gtrxpd = gtrxpd c,
         self_rxdlysreset = rxdlysreset c, self_rxphalign = rxphalign c,
         self_rxuserrdy = rxuserrdy c,
         rx_init_delay = WaitTimer_tick t_init True (rx_init_delay s),
         rx_watchdog = WaitTimer_tick t_wd (GTPRXInit_watchdog_wait i s) (rx_watchdog s)\<rparr>)"

text \<open>
  A run of the receiver, which also records what the read phase saw: the second component
  is the value of \<open>do\<close> in the latest tick in which the controller, in \<open>DRP_READ_WAIT\<close>, was
  given \<open>rdy\<close> (\<open>None\<close> before the first such tick).
\<close>

definition GTPRXInit_observe ::
  "nat \<Rightarrow> nat \<Rightarrow> GTPRXInit_regs \<times> 16 word option \<Rightarrow> GTPRXInit_in
     \<Rightarrow> GTPRXInit_regs \<times> 16 word option" where
  "GTPRXInit_observe t_init t_wd sr i =
     (case sr of (s, seen) \<Rightarrow>
        (GTPRXInit_tick t_init t_wd i s,
         if rx_fsm_state s = RX_DRP_READ_WAIT \<and> drp_rdy (rx_drp_back i)
         then Some (drp_do (rx_drp_back i)) else seen))"

definition GTPRXInit_run ::
  "nat \<Rightarrow> nat \<Rightarrow> GTPRXInit_in list \<Rightarrow> GTPRXInit_regs \<times> 16 word option" where
  "GTPRXInit_run t_init t_wd inputs =
     foldl (GTPRXInit_observe t_init t_wd) (GTPRXInit_reset t_init t_wd, None) inputs"

section \<open>\<open>GTP\<close>: the datapaths\<close>

text \<open>
  \<open>nwords = data_width // 10\<close> with \<open>data_width = 20\<close>: two lanes, so \<open>tx_data\<close> and
  \<open>rx_data\<close> are 16 bits wide and the per-lane flags 2 bits. \<open>Repl(b, n)\<close> is \<open>n\<close> copies of
  the bit \<open>b\<close>; the width is that of the word it is assigned to.
\<close>

definition nwords :: nat where
  "nwords = 20 div 10"

definition Repl :: "bool \<Rightarrow> 'a::len word" where
  "Repl b = horner_sum of_bool 2 (replicate LENGTH('a) b)"

text \<open>
  The transmit datapath drives \<open>sink.ready\<close> and the five signals wired to the channel's
  \<open>TX8B10BEN\<close>, \<open>TXDATA\<close>, \<open>TXCHARISK\<close>, \<open>TXCHARDISPMODE\<close> and \<open>TXCHARDISPVAL\<close>. Its
  \<open>tx_gpio_en\<close> and \<open>tx_gpio\<close> are the local signals, that is the outputs of the two
  \<open>FFSynchronizer\<close>s into domain \<open>tx\<close>.
\<close>

record GTP_tx_lines =
  sink_ready :: bool
  tx_enable_8b10b :: bool
  tx_data :: "16 word"
  tx_ctrl :: "2 word"
  tx_char_disp_mode :: "2 word"
  tx_char_disp_val :: "2 word"

definition GTP_tx_datapath :: "bool \<Rightarrow> bool \<Rightarrow> 16 word \<Rightarrow> 2 word \<Rightarrow> GTP_tx_lines" where
  "GTP_tx_datapath tx_gpio_en tx_gpio sink_data sink_ctrl =
     (if tx_gpio_en
      then \<lparr>sink_ready = True, tx_enable_8b10b = False, tx_data = Repl tx_gpio, tx_ctrl = 0,
            tx_char_disp_mode = Repl tx_gpio, tx_char_disp_val = Repl tx_gpio\<rparr>
      else \<lparr>sink_ready = True, tx_enable_8b10b = True, tx_data = sink_data,
            tx_ctrl = sink_ctrl, tx_char_disp_mode = 0, tx_char_disp_val = 0\<rparr>)"

text \<open>
  The receive datapath. \<open>SUB\<close> comes from the module \<open>usb3.physical.coding\<close>, which is not
  part of this repository: the symbol is a parameter, a byte \<open>SUB.value\<close> and a flag
  \<open>SUB.ctrl\<close>. \<open>word_select(i, 8)\<close> is the \<open>i\<close>-th byte of a signal, read and assigned.
\<close>

record symbol =
  sym_value :: "8 word"
  sym_ctrl :: bool

record GTP_source =
  source_valid :: bool
  source_data :: "16 word"
  source_ctrl :: "2 word"

definition word_select :: "16 word \<Rightarrow> nat \<Rightarrow> 8 word" where
  "word_select w i = ucast (drop_bit (i * 8) w)"

definition assign_word_select :: "16 word \<Rightarrow> nat \<Rightarrow> 8 word \<Rightarrow> 16 word" where
  "assign_word_select w i v = (w AND NOT (push_bit (i * 8) (mask 8))) OR push_bit (i * 8) (ucast v)"

definition assign_bit :: "2 word \<Rightarrow> nat \<Rightarrow> bool \<Rightarrow> 2 word" where
  "assign_bit w i b = (if b then set_bit i w else unset_bit i w)"

definition GTP_rx_lane ::
  "symbol \<Rightarrow> 16 word \<Rightarrow> 2 word \<Rightarrow> 2 word \<Rightarrow> nat \<Rightarrow> GTP_source \<Rightarrow> GTP_source" where
  "GTP_rx_lane SUB rx_data rx_ctrl rx_code_error i src =
     (if bit rx_code_error i
      then src\<lparr>source_data := assign_word_select (source_data src) i (sym_value SUB),
               source_ctrl := assign_bit (source_ctrl src) i (sym_ctrl SUB)\<rparr>
      else src\<lparr>source_data := assign_word_select (source_data src) i (word_select rx_data i),
               source_ctrl := assign_bit (source_ctrl src) i (bit rx_ctrl i)\<rparr>)"

definition GTP_rx_datapath :: "symbol \<Rightarrow> 16 word \<Rightarrow> 2 word \<Rightarrow> 2 word \<Rightarrow> GTP_source" where
  "GTP_rx_datapath SUB rx_data rx_ctrl rx_code_error =
     fold (GTP_rx_lane SUB rx_data rx_ctrl rx_code_error) [0..<nwords]
       \<lparr>source_valid = True, source_data = 0, source_ctrl = 0\<rparr>"

section \<open>\<open>GTP\<close> and \<open>LunaArtix7SerDes\<close>: the bringup controllers in place\<close>

text \<open>
  \<open>GTP\<close> instantiates one \<open>GTPTXInit\<close> and one \<open>GTPRXInit\<close> and drives
  \<open>tx_init.restart\<close> with \<open>~self.tx_enable\<close> and \<open>rx_init.restart\<close> with \<open>~self.rx_enable\<close>;
  \<open>tx_ready\<close> and \<open>rx_ready\<close> are the controllers' \<open>done\<close>. Nothing drives
  \<open>tx_init.drp_done\<close>, which keeps its reset value 1. The inputs of a tick are the two
  enables, the (synchronised) status lines of the PLL and of the channel, and what the DRP mux
  hands back to \<open>rx_init.drp\<close>.
\<close>

record GTP_in =
  tx_enable :: bool
  rx_enable :: bool
  qpll_lock :: bool
  gtp_txresetdone :: bool
  gtp_txphaligndone :: bool
  gtp_rxresetdone :: bool
  gtp_rxpmaresetdone :: bool
  rx_init_drp_back :: drp_p2c

record GTP_regs =
  tx_init :: GTPTXInit_regs
  rx_init :: GTPRXInit_regs

definition GTP_tx_init_in :: "GTP_in \<Rightarrow> GTPTXInit_in" where
  "GTP_tx_init_in i =
     \<lparr>tx_restart = (\<not> tx_enable i), tx_plllock = qpll_lock i,
      txresetdone = gtp_txresetdone i, txphaligndone = gtp_txphaligndone i,
      tx_drp_done = True\<rparr>"

definition GTP_rx_init_in :: "GTP_in \<Rightarrow> GTPRXInit_in" where
  "GTP_rx_init_in i =
     \<lparr>rx_restart = (\<not> rx_enable i), rxresetdone = gtp_rxresetdone i,
      rxpmaresetdone = gtp_rxpmaresetdone i, rx_drp_back = rx_init_drp_back i\<rparr>"

definition GTP_tx_ready :: "GTP_in \<Rightarrow> GTP_regs \<Rightarrow> bool" where
  "GTP_tx_ready i s = tx_done (GTPTXInit_signals (GTP_tx_init_in i) (tx_init s))"

definition GTP_rx_ready :: "GTP_in \<Rightarrow> GTP_regs \<Rightarrow> bool" where
  "GTP_rx_ready i s = rx_done (GTPRXInit_signals (GTP_rx_init_in i) (rx_init s))"

text \<open>
  Both controllers get \<open>ss_clock_frequency\<close>, so their settle timers have one length
  \<open>t_init\<close>; the watchdogs have \<open>t_wd_tx\<close> and \<open>t_wd_rx\<close> ticks.
\<close>

definition GTP_reset :: "nat \<Rightarrow> nat \<Rightarrow> nat \<Rightarrow> GTP_regs" where
  "GTP_reset t_init t_wd_tx t_wd_rx =
     \<lparr>tx_init = GTPTXInit_reset t_init t_wd_tx, rx_init = GTPRXInit_reset t_init t_wd_rx\<rparr>"

definition GTP_tick :: "nat \<Rightarrow> nat \<Rightarrow> nat \<Rightarrow> GTP_in \<Rightarrow> GTP_regs \<Rightarrow> GTP_regs" where
  "GTP_tick t_init t_wd_tx t_wd_rx i s =
     \<lparr>tx_init = GTPTXInit_tick t_init t_wd_tx (GTP_tx_init_in i) (tx_init s),
      rx_init = GTPRXInit_tick t_init t_wd_rx (GTP_rx_init_in i) (rx_init s)\<rparr>"

definition GTP_run :: "nat \<Rightarrow> nat \<Rightarrow> nat \<Rightarrow> GTP_in list \<Rightarrow> GTP_regs" where
  "GTP_run t_init t_wd_tx t_wd_rx inputs =
     foldl (\<lambda>s i. GTP_tick t_init t_wd_tx t_wd_rx i s) (GTP_reset t_init t_wd_tx t_wd_rx) inputs"

text \<open>
  \<open>LunaArtix7SerDes\<close> drives both \<open>serdes.tx_enable\<close> and \<open>serdes.rx_enable\<close> with its
  \<open>enable\<close> and reports \<open>ready = serdes.tx_ready & serdes.rx_ready\<close>.
\<close>

definition LunaArtix7SerDes_serdes_in :: "bool \<Rightarrow> GTP_in \<Rightarrow> GTP_in" where
  "LunaArtix7SerDes_serdes_in enable i = i\<lparr>tx_enable := enable, rx_enable := enable\<rparr>"

definition LunaArtix7SerDes_ready :: "bool \<Rightarrow> GTP_in \<Rightarrow> GTP_regs \<Rightarrow> bool" where
  "LunaArtix7SerDes_ready enable i s =
     (GTP_tx_ready (LunaArtix7SerDes_serdes_in enable i) s \<and>
      GTP_rx_ready (LunaArtix7SerDes_serdes_in enable i) s)"

chapter \<open>Properties\<close>

section \<open>The configuration search\<close>

text \<open>
  The four loops are one pass over the grid: \<open>compute_config\<close> stops at the first grid point
  at which computing \<open>vco_freq\<close> raises or both constraints hold.
\<close>

lemma find_append_case:
  "find P (xs @ ys) = (case find P xs of Some x \<Rightarrow> Some x | None \<Rightarrow> find P ys)"
  by (induction xs) auto

lemma find_Some_holds: "find P xs = Some x \<Longrightarrow> P x"
  by (induction xs) (simp_all split: if_splits)

lemma find_Some_member: "find P xs = Some x \<Longrightarrow> x \<in> set xs"
  by (induction xs) (simp_all split: if_splits)

lemma find_weaken:
  "find (\<lambda>p. A p \<or> B p) xs = Some p \<Longrightarrow> B p \<Longrightarrow> find B xs = Some p"
  by (induction xs) (auto split: if_splits)

lemma search_Nil: "search r l [] = Inr None"
  by (simp add: search_def)

lemma search_Cons:
  "search r l (p # ps) =
     (if raises r p \<or> feasible r l p then result_at r l p else search r l ps)"
  by (simp add: search_def)

lemma result_at_not_None: "result_at r l p \<noteq> Inr None"
  by (cases p) (simp split: sum.splits)

lemma search_append:
  "search r l (xs @ ys) =
     (case search r l xs of
        Inl e \<Rightarrow> Inl e
      | Inr (Some c) \<Rightarrow> Inr (Some c)
      | Inr None \<Rightarrow> search r l ys)"
proof (induction xs)
  case Nil
  show ?case by (simp add: search_Nil)
next
  case (Cons p xs)
  show ?case
  proof (cases "raises r p \<or> feasible r l p")
    case True
    then have "search r l ((p # xs) @ ys) = result_at r l p"
      and "search r l (p # xs) = result_at r l p"
      by (simp_all add: search_Cons)
    then show ?thesis
      using result_at_not_None [of r l p]
      by (auto split: sum.splits option.splits)
  next
    case False
    then show ?thesis
      using Cons.IH by (simp add: search_Cons)
  qed
qed

lemma search_raising_row:
  assumes "vco_freq_of r n1 n2 m = Inl e"
  shows "search r l ((n1, n2, m, d) # ps) = Inl e"
  using assms by (simp add: search_Cons)

lemma search_row_out_of_range:
  assumes "vco_freq_of r n1 n2 m = Inr vco" and "\<not> vco_in_range vco"
  shows "search r l (map (\<lambda>d. (n1, n2, m, d)) ds) = Inr None"
  using assms by (induction ds) (simp_all add: search_Nil search_Cons)

lemma loop_d_row:
  assumes "vco_freq_of r n1 n2 m = Inr vco" and "vco_in_range vco"
  shows "search r l (map (\<lambda>d. (n1, n2, m, d)) ds) =
         (case loop_d r l n1 n2 m vco ds of Some c \<Rightarrow> Inr (Some c) | None \<Rightarrow> Inr None)"
  using assms by (induction ds) (simp_all add: search_Nil search_Cons Let_def)

lemma loop_m_search:
  "loop_m r l n1 n2 ms = search r l (concat (map (grid_d n1 n2) ms))"
proof (induction ms)
  case Nil
  show ?case by (simp add: search_Nil)
next
  case (Cons m ms)
  show ?case
  proof (cases "vco_freq_of r n1 n2 m")
    case (Inl e)
    have "search r l (concat (map (grid_d n1 n2) (m # ms))) = Inl e"
      unfolding list.map(2) concat.simps(2) grid_d_def append_Cons
      using Inl by (rule search_raising_row)
    with Inl show ?thesis by simp
  next
    case (Inr vco)
    show ?thesis
    proof (cases "vco_in_range vco")
      case True
      have row: "search r l (grid_d n1 n2 m) =
          (case loop_d r l n1 n2 m vco [1, 2, 4, 8, 16] of
             Some c \<Rightarrow> Inr (Some c) | None \<Rightarrow> Inr None)"
        unfolding grid_d_def using Inr True by (rule loop_d_row)
      have step: "loop_m r l n1 n2 (m # ms) =
          (case loop_d r l n1 n2 m vco [1, 2, 4, 8, 16] of
             Some c \<Rightarrow> Inr (Some c) | None \<Rightarrow> loop_m r l n1 n2 ms)"
        using Inr True by simp
      show ?thesis
        unfolding step Cons.IH list.map(2) concat.simps(2) search_append row
        by (cases "loop_d r l n1 n2 m vco [1, 2, 4, 8, 16]") simp_all
    next
      case False
      have row: "search r l (grid_d n1 n2 m) = Inr None"
        unfolding grid_d_def using Inr False by (rule search_row_out_of_range)
      have step: "loop_m r l n1 n2 (m # ms) = loop_m r l n1 n2 ms"
        using Inr False by simp
      show ?thesis
        unfolding step Cons.IH list.map(2) concat.simps(2) search_append row
        by simp
    qed
  qed
qed

lemma loop_n2_search:
  "loop_n2 r l n1 n2s = search r l (concat (map (grid_m n1) n2s))"
proof (induction n2s)
  case Nil
  show ?case by (simp add: search_Nil)
next
  case (Cons n2 n2s)
  have inner: "loop_m r l n1 n2 [1, 2] = search r l (grid_m n1 n2)"
    unfolding grid_m_def by (rule loop_m_search)
  show ?case
    unfolding loop_n2.simps inner Cons.IH list.map(2) concat.simps(2) search_append ..
qed

lemma loop_n1_search:
  "loop_n1 r l n1s = search r l (concat (map grid_n2 n1s))"
proof (induction n1s)
  case Nil
  show ?case by (simp add: search_Nil)
next
  case (Cons n1 n1s)
  have inner: "loop_n2 r l n1 [1, 2, 3, 4, 5] = search r l (grid_n2 n1)"
    unfolding grid_n2_def by (rule loop_n2_search)
  show ?case
    unfolding loop_n1.simps inner Cons.IH list.map(2) concat.simps(2) search_append ..
qed

lemma compute_config_search:
  "compute_config r l =
     (case search r l grid of
        Inl e \<Rightarrow> Inl e
      | Inr (Some c) \<Rightarrow> Inr c
      | Inr None \<Rightarrow> Inl (no_config_found r l))"
  unfolding compute_config_def grid_def loop_n1_search ..

lemma search_result:
  "search r l ps = Inr (Some c) \<Longrightarrow>
     \<exists>p. find (feasible r l) ps = Some p \<and> result_at r l p = Inr (Some c)"
proof -
  assume a: "search r l ps = Inr (Some c)"
  then obtain p where f: "find (\<lambda>p. raises r p \<or> feasible r l p) ps = Some p"
    and res: "result_at r l p = Inr (Some c)"
    unfolding search_def by (auto split: option.splits)
  from f have "raises r p \<or> feasible r l p"
    by (rule find_Some_holds)
  moreover from res have "\<not> raises r p"
    by (cases p) (auto split: sum.splits)
  ultimately have "feasible r l p" by blast
  with f have "find (feasible r l) ps = Some p"
    by (rule find_weaken)
  with res show ?thesis by blast
qed

lemma search_no_result:
  "search r l ps = Inr None \<longleftrightarrow> (\<forall>p \<in> set ps. \<not> raises r p \<and> \<not> feasible r l p)"
proof (cases "find (\<lambda>p. raises r p \<or> feasible r l p) ps")
  case None
  then have "\<forall>p \<in> set ps. \<not> (raises r p \<or> feasible r l p)"
    unfolding find_None_iff by blast
  moreover from None have "search r l ps = Inr None"
    by (simp add: search_def)
  ultimately show ?thesis by blast
next
  case (Some p)
  from Some have "raises r p \<or> feasible r l p" and "p \<in> set ps"
    by (rule find_Some_holds, rule find_Some_member)
  with Some show ?thesis
    unfolding search_def using result_at_not_None [of r l p] by auto
qed

lemma search_raised:
  "search r l ps = Inl e \<Longrightarrow> \<exists>p \<in> set ps. raises r p"
proof -
  assume a: "search r l ps = Inl e"
  then obtain p where f: "find (\<lambda>p. raises r p \<or> feasible r l p) ps = Some p"
    and res: "result_at r l p = Inl e"
    unfolding search_def by (auto split: option.splits)
  from res have "raises r p"
    by (cases p) (auto split: sum.splits)
  with find_Some_member [OF f] show ?thesis by blast
qed

lemma compute_config_cases:
  "(search r l grid = Inr None \<and> compute_config r l = Inl (no_config_found r l))
   \<or> (\<exists>e. search r l grid = Inl e \<and> compute_config r l = Inl e)
   \<or> (\<exists>c. search r l grid = Inr (Some c) \<and> compute_config r l = Inr c)"
  unfolding compute_config_search
  by (cases "search r l grid") (auto split: option.splits)

text \<open>The grid in nested order.\<close>

lemma transp_precedes: "transp precedes"
  by (rule transpI) auto

lemma precedes_irrefl: "\<not> precedes p p"
  by (cases p) auto

lemma precedes_asym: "precedes p q \<Longrightarrow> \<not> precedes q p"
  by (cases p; cases q) auto

lemma grid_successively: "successively precedes grid"
  by (simp add: grid_def grid_n2_def grid_m_def grid_d_def)

lemma grid_sorted: "sorted_wrt precedes grid"
  using grid_successively successively_conv_sorted_wrt [OF transp_precedes] by blast

lemma set_grid_d:
  "(a, b, c, e) \<in> set (grid_d n1 n2 m) \<longleftrightarrow>
     a = n1 \<and> b = n2 \<and> c = m \<and> e \<in> {1, 2, 4, 8, 16}"
  unfolding grid_d_def by auto

lemma set_grid_m:
  "(a, b, c, e) \<in> set (grid_m n1 n2) \<longleftrightarrow>
     a = n1 \<and> b = n2 \<and> c \<in> {1, 2} \<and> e \<in> {1, 2, 4, 8, 16}"
  unfolding grid_m_def by (auto simp: set_grid_d)

lemma set_grid_n2:
  "(a, b, c, e) \<in> set (grid_n2 n1) \<longleftrightarrow>
     a = n1 \<and> b \<in> {1, 2, 3, 4, 5} \<and> c \<in> {1, 2} \<and> e \<in> {1, 2, 4, 8, 16}"
  unfolding grid_n2_def by (auto simp: set_grid_m)

lemma set_grid:
  "(a, b, c, e) \<in> set grid \<longleftrightarrow>
     a \<in> {4, 5} \<and> b \<in> {1, 2, 3, 4, 5} \<and> c \<in> {1, 2} \<and> e \<in> {1, 2, 4, 8, 16}"
  unfolding grid_def by (auto simp: set_grid_n2)

lemma find_sorted_first:
  assumes "sorted_wrt R xs" and "find P xs = Some p"
    and "q \<in> set xs" and "R q p" and "\<And>x y. R x y \<Longrightarrow> \<not> R y x"
  shows "\<not> P q"
  using assms
proof (induction xs)
  case Nil
  then show ?case by simp
next
  case (Cons x xs)
  show ?case
  proof (cases "P x")
    case True
    with Cons.prems have "p = x" by simp
    with Cons.prems show ?thesis by auto
  next
    case False
    with Cons.prems have "find P xs = Some p" by simp
    with Cons False show ?thesis by auto
  qed
qed

lemma grid_factors:
  assumes "(n1, n2, m, d) \<in> set grid"
  shows "4 \<le> n1 * n2" and "n1 * n2 \<le> 25" and "m = 1 \<or> m = 2"
  using assms unfolding set_grid by auto

lemma vco_freq_of_PyInt:
  "vco_freq_of (PyInt k) n1 n2 m =
     raise_if_infinite (double_of (of_int k * of_nat (n1 * n2) / of_nat m))"
  by (simp add: vco_freq_of_def del: of_nat_mult)

lemma vco_freq_of_PyFloat:
  "vco_freq_of (PyFloat f) n1 n2 m = Inr (fdiv (fmul f (of_nat (n1 * n2))) (of_nat m))"
  by (simp add: vco_freq_of_def del: of_nat_mult)

subsection \<open>Rounding\<close>

text \<open>
  \<open>ilog2\<close> is the binary exponent, and rounding moves a value by less than one unit in the
  last place: a value of at least \<open>2^34\<close> rounds to a float above the VCO range, a value that
  is not positive rounds to a float that is not positive, and a float of at least 3 comes
  from a value of at least 1.
\<close>

lemma bit_length_bounds:
  "0 < n \<Longrightarrow> 2 ^ (bit_length n - 1) \<le> n \<and> n < 2 ^ bit_length n"
proof (induction n rule: bit_length.induct)
  case (1 n)
  show ?case
  proof (cases "n div 2 = 0")
    case True
    with 1 have "n = 1" by auto
    then show ?thesis by (simp add: bit_length.simps)
  next
    case False
    then have pos: "0 < n div 2" by simp
    with 1 have IH: "2 ^ (bit_length (n div 2) - 1) \<le> n div 2"
      "n div 2 < 2 ^ bit_length (n div 2)"
      by simp_all
    from pos have "bit_length (n div 2) \<noteq> 0"
      by (subst bit_length.simps) simp
    then obtain k where k: "bit_length (n div 2) = Suc k"
      by (cases "bit_length (n div 2)") simp_all
    from 1 have bl: "bit_length n = Suc (Suc k)"
      by (subst bit_length.simps) (simp add: k)
    from IH show ?thesis
      unfolding bl k by simp linarith
  qed
qed

lemma pow2_powi: "pow2 e = 2 powi e"
  by (simp add: pow2_def power_int_def field_simps)

lemma pow2_pos: "0 < pow2 e"
  by (simp add: pow2_powi)

lemma pow2_diff: "pow2 (a - b) = pow2 a / pow2 b"
  by (simp add: pow2_powi power_int_diff)

lemma round_half_even_ge: "\<lfloor>q\<rfloor> \<le> round_half_even q"
  by (simp add: round_half_even_def)

lemma round_half_even_le: "round_half_even q \<le> \<lfloor>q\<rfloor> + 1"
  by (simp add: round_half_even_def)

lemma ilog2_lower:
  assumes "1 \<le> y"
  shows "0 \<le> ilog2 y" and "pow2 (ilog2 y) \<le> y"
proof -
  let ?n = "nat \<lfloor>y\<rfloor>"
  from assms have fl: "1 \<le> \<lfloor>y\<rfloor>" by simp
  then have n: "0 < ?n" by simp
  from assms have e: "ilog2 y = int (bit_length ?n) - 1"
    by (simp add: ilog2_def)
  from n have "bit_length ?n \<noteq> 0"
    by (subst bit_length.simps) simp
  then show nonneg: "0 \<le> ilog2 y"
    unfolding e by simp
  then have "nat (ilog2 y) = bit_length ?n - 1"
    unfolding e by simp
  with nonneg have "pow2 (ilog2 y) = 2 ^ (bit_length ?n - 1)"
    by (simp add: pow2_def)
  also have "\<dots> = of_nat (2 ^ (bit_length ?n - 1))"
    by simp
  also have "\<dots> \<le> of_nat ?n"
    using bit_length_bounds [OF n] by (simp only: of_nat_le_iff)
  also have "\<dots> = of_int \<lfloor>y\<rfloor>"
    using fl by simp
  also have "\<dots> \<le> y"
    by simp
  finally show "pow2 (ilog2 y) \<le> y" .
qed

lemma round64_large:
  assumes "2 ^ 34 \<le> y"
  shows "3300000000 < round64 y"
proof -
  from assms have y1: "1 \<le> y" by simp
  define e where "e = ilog2 y"
  define u where "u = pow2 (e - 52)"
  have e0: "0 \<le> e" and pe: "pow2 e \<le> y"
    unfolding e_def using ilog2_lower [OF y1] by simp_all
  have upos: "0 < u"
    unfolding u_def by (rule pow2_pos)
  have u: "u = pow2 e / 2 ^ 52"
    unfolding u_def pow2_diff by (simp add: pow2_def)
  with pe have uy: "u \<le> y / 2 ^ 52"
    by (simp add: field_simps)
  from e0 have mx: "max (ilog2 y) (- 1022) - 52 = e - 52"
    unfolding e_def by simp
  from y1 have r: "round64 y = of_int (round_half_even (y / u)) * u"
    unfolding round64_def mx u_def by simp
  have "y / u - 1 < of_int \<lfloor>y / u\<rfloor>"
    by linarith
  also have "\<dots> \<le> of_int (round_half_even (y / u))"
    using round_half_even_ge [of "y / u"] by simp
  finally have "(y / u - 1) * u < of_int (round_half_even (y / u)) * u"
    using upos by simp
  moreover have "(y / u - 1) * u = y - u"
    using upos by (simp add: algebra_simps)
  ultimately have "y - u < round64 y"
    unfolding r by simp
  with uy assms show ?thesis
    by simp
qed

lemma round64_nonpos:
  assumes "y \<le> 0"
  shows "round64 y \<le> 0"
proof (cases "y = 0")
  case True
  then show ?thesis by (simp add: round64_def)
next
  case False
  define u where "u = pow2 (max (ilog2 y) (- 1022) - 52)"
  have upos: "0 < u"
    unfolding u_def by (rule pow2_pos)
  from False assms have "y / u < 0"
    using upos by (simp add: field_simps)
  then have "\<lfloor>y / u\<rfloor> < 0"
    by (simp add: floor_less_iff)
  with round_half_even_le [of "y / u"] have "round_half_even (y / u) \<le> 0"
    by linarith
  then have "of_int (round_half_even (y / u)) * u \<le> 0"
    using upos by (simp add: mult_le_0_iff)
  with False show ?thesis
    unfolding round64_def u_def by simp
qed

lemma pow2_add: "pow2 (a + b) = pow2 a * pow2 b"
  by (simp add: pow2_powi power_int_add)

lemma pow2_mono: "a \<le> b \<Longrightarrow> pow2 a \<le> pow2 b"
  unfolding pow2_powi by (rule power_int_increasing) simp_all

lemma pow2_strict_mono: "a < b \<Longrightarrow> pow2 a < pow2 b"
  unfolding pow2_powi by (rule power_int_strict_increasing) simp_all

lemma pow2_less_cancel: "pow2 a < pow2 b \<Longrightarrow> a < b"
  using pow2_mono [of b a] by (cases "a < b") simp_all

lemma pow2_numerals: "pow2 0 = 1" "pow2 52 = 2 ^ 52" "pow2 53 = 2 ^ 53"
  by (simp_all add: pow2_def)

lemma ilog2_upper:
  assumes "1 \<le> y"
  shows "y < pow2 (ilog2 y + 1)"
proof -
  let ?n = "nat \<lfloor>y\<rfloor>"
  from assms have fl: "1 \<le> \<lfloor>y\<rfloor>" by simp
  then have n: "0 < ?n" by simp
  from assms have e: "ilog2 y = int (bit_length ?n) - 1"
    by (simp add: ilog2_def)
  have p: "pow2 (ilog2 y + 1) = 2 ^ bit_length ?n"
    unfolding e by (simp add: pow2_def)
  have "?n < 2 ^ bit_length ?n"
    using bit_length_bounds [OF n] by simp
  then have "int ?n < int (2 ^ bit_length ?n)"
    by (simp only: of_nat_less_iff)
  with fl have "\<lfloor>y\<rfloor> < 2 ^ bit_length ?n"
    by simp
  then have "y < of_int (2 ^ bit_length ?n)"
    by (simp only: floor_less_iff)
  then show ?thesis
    unfolding p by simp
qed

lemma ilog2_unique:
  assumes "1 \<le> y" and "pow2 e \<le> y" and "y < pow2 (e + 1)"
  shows "ilog2 y = e"
proof -
  from ilog2_lower(2) [OF assms(1)] assms(3) have "pow2 (ilog2 y) < pow2 (e + 1)"
    by simp
  then have "ilog2 y < e + 1"
    by (rule pow2_less_cancel)
  moreover from ilog2_upper [OF assms(1)] assms(2) have "pow2 e < pow2 (ilog2 y + 1)"
    by simp
  then have "e < ilog2 y + 1"
    by (rule pow2_less_cancel)
  ultimately show ?thesis by simp
qed

lemma round_half_even_of_int: "round_half_even (of_int i) = i"
  by (simp add: round_half_even_def)

lemma round64_exact:
  assumes "1 \<le> y" and "y = of_int i * pow2 (ilog2 y - 52)"
  shows "round64 y = y"
proof -
  define u where "u = pow2 (ilog2 y - 52)"
  have upos: "0 < u"
    unfolding u_def by (rule pow2_pos)
  from assms(2) have y: "y = of_int i * u"
    unfolding u_def .
  then have q: "y / u = of_int i"
    using upos by simp
  from ilog2_lower(1) [OF assms(1)] have mx: "max (ilog2 y) (- 1022) = ilog2 y"
    by simp
  from assms(1) have "round64 y = of_int (round_half_even (y / u)) * u"
    unfolding round64_def mx u_def by simp
  also have "\<dots> = of_int i * u"
    unfolding q round_half_even_of_int ..
  finally show ?thesis
    using y by simp
qed

lemma round64_normal:
  assumes "1 \<le> y"
  obtains i where "round64 y = of_int i * pow2 (ilog2 (round64 y) - 52)" and "1 \<le> round64 y"
proof -
  define e where "e = ilog2 y"
  define u where "u = pow2 (e - 52)"
  define i where "i = round_half_even (y / u)"
  have e0: "0 \<le> e" and lo: "pow2 e \<le> y" and hi: "y < pow2 (e + 1)"
    unfolding e_def using ilog2_lower [OF assms] ilog2_upper [OF assms] by simp_all
  have upos: "0 < u"
    unfolding u_def by (rule pow2_pos)
  have pe: "pow2 e = 2 ^ 52 * u"
    unfolding u_def using pow2_add [of 52 "e - 52"] by (simp add: pow2_numerals)
  have pe1: "pow2 (e + 1) = 2 ^ 53 * u"
    unfolding u_def using pow2_add [of 53 "e - 52"] by (simp add: pow2_numerals add.commute)
  from e0 have mx: "max (ilog2 y) (- 1022) - 52 = e - 52"
    unfolding e_def by simp
  from assms have r: "round64 y = of_int i * u"
    unfolding round64_def mx i_def u_def by simp
  from lo hi have q: "2 ^ 52 \<le> y / u" "y / u < 2 ^ 53"
    unfolding pe pe1 using upos by (simp_all add: field_simps)
  have "(2 :: rat) ^ 52 = of_int (2 ^ 52)" and "(2 :: rat) ^ 53 = of_int (2 ^ 53)"
    by simp_all
  with q have fl: "2 ^ 52 \<le> \<lfloor>y / u\<rfloor>" "\<lfloor>y / u\<rfloor> < 2 ^ 53"
    by (simp_all only: le_floor_iff floor_less_iff)
  with round_half_even_ge [of "y / u"] round_half_even_le [of "y / u"]
  have i: "2 ^ 52 \<le> i" "i \<le> 2 ^ 53"
    unfolding i_def by linarith+
  then have I: "(2 :: rat) ^ 52 \<le> of_int i" "(of_int i :: rat) \<le> 2 ^ 53"
    by (metis of_int_le_iff of_int_numeral of_int_power)+
  from I(1) upos have rlo: "pow2 e \<le> round64 y"
    unfolding r pe by simp
  from e0 have "pow2 0 \<le> pow2 e"
    by (rule pow2_mono)
  then have "1 \<le> pow2 e"
    by (simp add: pow2_def)
  with rlo have r1: "1 \<le> round64 y"
    by simp
  show ?thesis
  proof (cases "i = 2 ^ 53")
    case True
    then have rv: "round64 y = pow2 (e + 1)"
      unfolding r pe1 by simp
    have "round64 y < pow2 (e + 1 + 1)"
      unfolding rv by (rule pow2_strict_mono) simp
    with r1 have "ilog2 (round64 y) = e + 1"
      using rv by (intro ilog2_unique) simp_all
    moreover have "pow2 (e + 1) = of_int (2 ^ 52) * pow2 (e + 1 - 52)"
      using pow2_add [of 52 "e + 1 - 52"] by (simp add: pow2_numerals add.commute)
    ultimately have "round64 y = of_int (2 ^ 52) * pow2 (ilog2 (round64 y) - 52)"
      using rv by simp
    with r1 that show ?thesis by blast
  next
    case False
    with i have "i < 2 ^ 53" by simp
    then have "(of_int i :: rat) < 2 ^ 53"
      by (metis of_int_less_iff of_int_numeral of_int_power)
    with upos have "round64 y < pow2 (e + 1)"
      unfolding r pe1 by simp
    with r1 rlo have "ilog2 (round64 y) = e"
      by (intro ilog2_unique)
    then have "round64 y = of_int i * pow2 (ilog2 (round64 y) - 52)"
      using r unfolding u_def by simp
    with r1 that show ?thesis by blast
  qed
qed

lemma round64_scale:
  assumes "1 \<le> r" and "r = of_int i * pow2 (ilog2 r - 52)" and "1 \<le> r * pow2 j"
  shows "round64 (r * pow2 j) = r * pow2 j"
proof -
  have jpos: "0 < pow2 j"
    by (rule pow2_pos)
  have "pow2 (ilog2 r + j) \<le> r * pow2 j"
    unfolding pow2_add using ilog2_lower(2) [OF assms(1)] jpos by simp
  moreover have "r * pow2 j < pow2 (ilog2 r + j + 1)"
    using ilog2_upper [OF assms(1)] jpos pow2_add [of "ilog2 r + 1" j]
    by (simp add: add.commute add.left_commute)
  ultimately have e: "ilog2 (r * pow2 j) = ilog2 r + j"
    using assms(3) by (intro ilog2_unique)
  have "pow2 (ilog2 r - 52) * pow2 j = pow2 (ilog2 (r * pow2 j) - 52)"
    unfolding e using pow2_add [of "ilog2 r - 52" j] by (simp add: algebra_simps)
  then have "r * pow2 j = of_int i * pow2 (ilog2 (r * pow2 j) - 52)"
    using assms(2) by (metis mult.assoc)
  with assms(3) show ?thesis
    by (rule round64_exact)
qed

lemma round64_upper:
  assumes "0 < y"
  shows "round64 y \<le> 2 * y + 1"
proof -
  define u where "u = pow2 (max (ilog2 y) (- 1022) - 52)"
  have upos: "0 < u"
    unfolding u_def by (rule pow2_pos)
  have "of_int (round_half_even (y / u)) \<le> (of_int (\<lfloor>y / u\<rfloor> + 1) :: rat)"
    using round_half_even_le [of "y / u"] by (simp only: of_int_le_iff)
  also have "\<dots> \<le> y / u + 1"
    by simp
  finally have "of_int (round_half_even (y / u)) * u \<le> (y / u + 1) * u"
    using upos by simp
  also have "\<dots> = y + u"
    using upos by (simp add: algebra_simps)
  finally have r: "round64 y \<le> y + u"
    using assms unfolding round64_def u_def by simp
  have "u \<le> y + 1"
  proof (cases "1 \<le> y")
    case True
    from ilog2_lower [OF True] have "max (ilog2 y) (- 1022) - 52 \<le> ilog2 y"
      by simp
    then have "u \<le> pow2 (ilog2 y)"
      unfolding u_def by (rule pow2_mono)
    with ilog2_lower(2) [OF True] assms show ?thesis by simp
  next
    case False
    with assms have "ilog2 y \<le> 0"
      by (simp add: ilog2_def)
    then have "max (ilog2 y) (- 1022) - 52 \<le> 0"
      by simp
    then have "u \<le> pow2 0"
      unfolding u_def by (rule pow2_mono)
    with assms show ?thesis by (simp add: pow2_numerals)
  qed
  with r show ?thesis by simp
qed

lemma round64_small:
  assumes "3 \<le> round64 y"
  shows "1 \<le> y"
proof (rule ccontr)
  assume "\<not> 1 \<le> y"
  then have y: "y < 1" by simp
  show False
  proof (cases "0 < y")
    case True
    from round64_upper [OF True] y assms show False by simp
  next
    case False
    then have "round64 y \<le> 0"
      by (intro round64_nonpos) simp
    with assms show False by simp
  qed
qed

lemma round64_big:
  assumes "1600000000 \<le> round64 z"
  shows "700000000 \<le> z"
proof (cases "0 < z")
  case True
  from round64_upper [OF True] assms show ?thesis by simp
next
  case False
  then have "round64 z \<le> 0"
    by (intro round64_nonpos) simp
  with assms show ?thesis by simp
qed

lemma double_of_Finite: "double_of y = Finite v \<Longrightarrow> v = round64 y"
  unfolding double_of_def by (simp split: if_splits)

lemma double_of_in_range:
  "\<bar>y\<bar> \<le> 2 ^ 40 \<Longrightarrow> double_of y = Finite (round64 y)"
  unfolding double_of_def by auto

text \<open>
  An int so large that \<open>refclk_freq*(n1*n2)/m\<close> overflows at one grid point satisfies the
  constraints at none, and below \<open>2^1000\<close> nothing overflows.
\<close>

lemma overflow_scaling:
  fixes K N M N' M' T :: rat
  assumes "0 < K" and "N \<le> 25" and "M = 1 \<or> M = 2" and "4 \<le> N'" and "M' = 1 \<or> M' = 2"
    and "T \<le> K * N / M" 
  shows "2 * T / 25 \<le> K * N' / M'"
proof -
  define A where "A = K * N"
  define B where "B = K * N'"
  have bounds: "A \<le> 25 * K" "4 * K \<le> B"
    unfolding A_def B_def using assms by simp_all
  from assms have "T \<le> A / M"
    unfolding A_def by simp
  with bounds assms(1,3,5) have "2 * T / 25 \<le> B / M'"
    by auto
  then show ?thesis
    unfolding B_def .
qed

lemma raising_excludes_feasible:
  assumes p: "(n1, n2, m, d) \<in> set grid" and raised: "raises r (n1, n2, m, d)"
    and q: "(a, b, c, e) \<in> set grid"
  shows "\<not> feasible r l (a, b, c, e)"
proof
  assume feas: "feasible r l (a, b, c, e)"
  from raised obtain k where r: "r = PyInt k"
    by (cases r) (simp_all add: vco_freq_of_PyFloat)
  define T :: rat where "T = (2 - 1 / 2 ^ 53) * 2 ^ 1023"
  define x :: rat where "x = of_int k * of_nat (n1 * n2) / of_nat m"
  define y :: rat where "y = of_int k * of_nat (a * b) / of_nat c"
  from raised have "double_of x = PosInf \<or> double_of x = NegInf"
    unfolding r x_def by (simp add: vco_freq_of_PyInt raise_if_infinite_def split: if_splits)
  then have x: "T \<le> x \<or> x \<le> - T"
    unfolding double_of_def T_def by (simp split: if_splits)
  from feas obtain v where "double_of y = Finite v" and v: "1600000000 \<le> v" "v \<le> 3300000000"
    unfolding r y_def
    by (cases "double_of (of_int k * of_nat (a * b) / of_nat c)")
       (simp_all add: vco_freq_of_PyInt raise_if_infinite_def)
  then have vy: "v = round64 y"
    unfolding double_of_def by (simp split: if_splits)
  note P = grid_factors [OF p] and Q = grid_factors [OF q]
  have N: "(of_nat (n1 * n2) :: rat) \<le> 25" "(4 :: rat) \<le> of_nat (a * b)"
    using P(2) Q(1) by (simp_all only: of_nat_le_iff [where ?'a = rat, symmetric] of_nat_numeral)
  have M: "(of_nat m :: rat) = 1 \<or> (of_nat m :: rat) = 2"
    "(of_nat c :: rat) = 1 \<or> (of_nat c :: rat) = 2"
    using P(3) Q(3) by auto
  have Tpos: "0 < T"
    unfolding T_def by simp
  show False
  proof (cases "0 < k")
    case True
    then have K: "(0 :: rat) < of_int k" by simp
    have "0 \<le> x"
      unfolding x_def using K by simp
    with x Tpos have "T \<le> of_int k * of_nat (n1 * n2) / of_nat m"
      unfolding x_def by linarith
    with K N M have "2 * T / 25 \<le> y"
      unfolding y_def by (intro overflow_scaling)
    moreover have "2 ^ 34 \<le> 2 * T / 25"
      unfolding T_def by simp
    ultimately have "2 ^ 34 \<le> y" by linarith
    then have "3300000000 < round64 y"
      by (rule round64_large)
    with v vy show False by simp
  next
    case False
    then have "(of_int k :: rat) \<le> 0" by simp
    then have "y \<le> 0"
      unfolding y_def by (simp add: divide_le_0_iff mult_le_0_iff)
    then have "round64 y \<le> 0"
      by (rule round64_nonpos)
    with v vy show False by simp
  qed
qed

lemma no_raise_when_small:
  assumes "\<forall>k. r = PyInt k \<longrightarrow> \<bar>k\<bar> < 2 ^ 1000" and p: "(n1, n2, m, d) \<in> set grid"
  shows "\<not> raises r (n1, n2, m, d)"
proof (cases r)
  case (PyFloat f)
  then show ?thesis by (simp add: vco_freq_of_PyFloat)
next
  case (PyInt k)
  with assms have k: "\<bar>k\<bar> < 2 ^ 1000" by simp
  then have K: "\<bar>of_int k :: rat\<bar> < 2 ^ 1000"
    by (metis of_int_abs of_int_less_iff of_int_numeral of_int_power)
  define x :: rat where "x = of_int k * of_nat (n1 * n2) / of_nat m"
  note P = grid_factors [OF p]
  have N: "(of_nat (n1 * n2) :: rat) \<le> 25" "(0 :: rat) \<le> of_nat (n1 * n2)"
    using P(2) by (simp_all only: of_nat_le_iff [where ?'a = rat, symmetric] of_nat_numeral of_nat_0_le_iff)
  have M: "(of_nat m :: rat) = 1 \<or> (of_nat m :: rat) = 2"
    using P(3) by auto
  have "\<bar>x\<bar> = \<bar>of_int k\<bar> * of_nat (n1 * n2) / \<bar>of_nat m\<bar>"
    unfolding x_def by (simp only: abs_divide abs_mult abs_of_nat)
  also have "\<dots> \<le> \<bar>of_int k\<bar> * of_nat (n1 * n2)"
    using M N(2) by (auto simp del: of_nat_mult simp: mult_nonneg_nonneg)
  also have "\<dots> \<le> \<bar>of_int k\<bar> * 25"
    using N(1) by (intro mult_left_mono) simp_all
  finally have "\<bar>x\<bar> < 2 ^ 1000 * 25"
    using K by simp
  moreover have "(2 :: rat) ^ 1000 * 25 < (2 - 1 / 2 ^ 53) * 2 ^ 1023"
    by simp
  ultimately have "\<bar>x\<bar> < (2 - 1 / 2 ^ 53) * 2 ^ 1023"
    by linarith
  then have "double_of x = Finite (round64 x)"
    unfolding double_of_def by (simp add: abs_less_iff)
  then show ?thesis
    unfolding PyInt x_def by (simp add: vco_freq_of_PyInt raise_if_infinite_def)
qed

lemma py_div_float_small:
  assumes "\<forall>k. r = PyInt k \<longrightarrow> \<bar>k\<bar> < 2 ^ 1000"
  shows "\<exists>f. py_div_float r c = Inr f"
proof (cases r)
  case (PyFloat f)
  then show ?thesis by simp
next
  case (PyInt k)
  with assms have k: "\<bar>k\<bar> < 2 ^ 1000" by simp
  then have K: "\<bar>of_int k :: rat\<bar> < 2 ^ 1000"
    by (metis of_int_abs of_int_less_iff of_int_numeral of_int_power)
  moreover have "(2 :: rat) ^ 1000 < (2 - 1 / 2 ^ 53) * 2 ^ 1023"
    by simp
  ultimately have "\<bar>of_int k :: rat\<bar> < (2 - 1 / 2 ^ 53) * 2 ^ 1023"
    by linarith
  then have "double_of (of_int k) = Finite (round64 (of_int k))"
    unfolding double_of_def by (simp add: abs_less_iff)
  then show ?thesis
    unfolding PyInt by (simp add: raise_if_infinite_def)
qed

text \<open>
  Where the source's arithmetic is exact. A float in the VCO range is doubled and divided by
  \<open>d\<close> without rounding. With an int \<open>refclk_freq\<close> the VCO frequency is computed without
  rounding; with a float \<open>refclk_freq\<close> the product \<open>refclk_freq*(n1*n2)\<close> is rounded, and
  the division by \<open>m\<close> is exact.
\<close>

lemma vco_is_rounded:
  assumes "vco_freq_of r n1 n2 m = Inr (Finite v)" and "1600000000 \<le> v"
  obtains y where "1 \<le> y" and "v = round64 y"
proof -
  have "\<exists>y. double_of y = Finite v"
  proof (cases r)
    case (PyInt k)
    with assms(1) show ?thesis
      by (auto simp: vco_freq_of_PyInt raise_if_infinite_def split: if_splits)
  next
    case (PyFloat f)
    with assms(1) have "fdiv (fmul f (of_nat (n1 * n2))) (of_nat m) = Finite v"
      by (simp add: vco_freq_of_PyFloat)
    then show ?thesis
      by (cases "fmul f (of_nat (n1 * n2))") auto
  qed
  then obtain y where "v = round64 y"
    using double_of_Finite by blast
  moreover from this assms(2) have "1 \<le> y"
    by (intro round64_small) simp
  ultimately show ?thesis
    using that by blast
qed

lemma linerate_exact:
  assumes y: "1 \<le> y" and v: "v = round64 y"
    and lo: "1600000000 \<le> v" and hi: "v \<le> 3300000000"
    and d: "d \<in> {1, 2, 4, 8, 16}"
  shows "linerate_of (Finite v) d = Finite (v * 2 / of_nat d)"
proof -
  from round64_normal [OF y] obtain i
    where i: "v = of_int i * pow2 (ilog2 v - 52)" and v1: "1 \<le> v"
    unfolding v by blast
  have scale: "round64 (v * pow2 j) = v * pow2 j" if "1 \<le> v * pow2 j" for j
    using v1 i that by (rule round64_scale)
  have p: "pow2 1 = 2" "pow2 0 = 1" "pow2 (- 1) = 1 / 2" "pow2 (- 2) = 1 / 4" "pow2 (- 3) = 1 / 8"
    by (simp_all add: pow2_def)
  from lo have "round64 (v * pow2 1) = v * pow2 1"
    by (intro scale) (simp add: p)
  then have twice: "round64 (v * 2) = v * 2"
    by (simp add: p)
  from lo hi have "double_of (v * 2) = Finite (round64 (v * 2))"
    by (intro double_of_in_range) simp
  then have m2: "fmul (Finite v) 2 = Finite (v * 2)"
    by (simp add: twice)
  have fin: "double_of (v * 2 / of_nat d) = Finite (round64 (v * 2 / of_nat d))"
    using lo hi d by (intro double_of_in_range) auto
  from d consider "d = 1" | "d = 2" | "d = 4" | "d = 8" | "d = 16"
    by auto
  then have "round64 (v * 2 / of_nat d) = v * 2 / of_nat d"
  proof cases
    case 1
    with twice show ?thesis by simp
  next
    case 2
    from lo have "round64 (v * pow2 0) = v * pow2 0"
      by (intro scale) (simp add: p)
    with 2 show ?thesis by (simp add: p)
  next
    case 3
    from lo have "round64 (v * pow2 (- 1)) = v * pow2 (- 1)"
      by (intro scale) (simp add: p)
    with 3 show ?thesis by (simp add: p)
  next
    case 4
    from lo have "round64 (v * pow2 (- 2)) = v * pow2 (- 2)"
      by (intro scale) (simp add: p)
    with 4 show ?thesis by (simp add: p)
  next
    case 5
    from lo have "round64 (v * pow2 (- 3)) = v * pow2 (- 3)"
      by (intro scale) (simp add: p)
    with 5 show ?thesis by (simp add: p)
  qed
  with fin m2 show ?thesis
    unfolding linerate_of_def by simp
qed

lemma vco_exact_int:
  assumes p: "(n1, n2, m, d) \<in> set grid"
    and vco: "vco_freq_of (PyInt k) n1 n2 m = Inr (Finite v)"
    and lo: "1600000000 \<le> v" and hi: "v \<le> 3300000000"
  shows "v = of_int k * of_nat (n1 * n2) / of_nat m"
    and "1 \<le> of_int k * of_nat (n1 * n2) / (of_nat m :: rat)"
proof -
  define y :: rat where "y = of_int k * of_nat (n1 * n2) / of_nat m"
  from vco have "double_of y = Finite v"
    unfolding y_def vco_freq_of_PyInt raise_if_infinite_def by (simp split: if_splits)
  then have v: "v = round64 y"
    by (rule double_of_Finite)
  with lo have y1: "1 \<le> y"
    by (intro round64_small) simp
  have y34: "y < 2 ^ 34"
  proof (rule ccontr)
    assume "\<not> y < 2 ^ 34"
    then have "3300000000 < round64 y"
      by (intro round64_large) simp
    with hi v show False by simp
  qed
  define e where "e = ilog2 y"
  have e0: "0 \<le> e" and pe: "pow2 e \<le> y"
    unfolding e_def using ilog2_lower [OF y1] by simp_all
  have "pow2 34 = 2 ^ 34"
    by (simp add: pow2_def)
  with pe y34 have "pow2 e < pow2 34"
    by simp
  then have e34: "e < 34"
    by (rule pow2_less_cancel)
  define t where "t = nat (51 - e)"
  define i where "i = k * int (n1 * n2) * 2 ^ t * int (2 div m)"
  have "pow2 (51 - e) = 2 ^ t"
    unfolding t_def using e34 by (simp add: pow2_def)
  moreover have "pow2 (51 - e) * pow2 (e - 51) = 1"
    using pow2_add [of "51 - e" "e - 51"] by (simp add: pow2_numerals)
  moreover have "pow2 (e - 52) = pow2 (e - 51) * pow2 (- 1)"
    using pow2_add [of "e - 51" "- 1"] by simp
  moreover have "pow2 (- 1) = 1 / 2"
    by (simp add: pow2_def)
  ultimately have u: "2 ^ t * pow2 (e - 52) = 1 / 2"
    by (metis mult.assoc mult.left_neutral)
  from grid_factors(3) [OF p] have m: "(of_nat (2 div m) :: rat) / 2 = 1 / of_nat m"
    by auto
  have "of_int i * pow2 (e - 52) =
      of_int k * of_nat (n1 * n2) * of_nat (2 div m) * (2 ^ t * pow2 (e - 52))"
    unfolding i_def by (simp del: of_nat_mult)
  also have "\<dots> = of_int k * of_nat (n1 * n2) * (of_nat (2 div m) / 2)"
    unfolding u by simp
  also have "\<dots> = y"
    unfolding m y_def by simp
  finally have "y = of_int i * pow2 (ilog2 y - 52)"
    unfolding e_def by simp
  with y1 have "round64 y = y"
    by (rule round64_exact)
  with v show "v = of_int k * of_nat (n1 * n2) / of_nat m"
    unfolding y_def by simp
  from y1 show "1 \<le> of_int k * of_nat (n1 * n2) / (of_nat m :: rat)"
    unfolding y_def .
qed

lemma vco_exact_float:
  assumes p: "(n1, n2, m, d) \<in> set grid"
    and vco: "vco_freq_of (PyFloat (Finite x)) n1 n2 m = Inr (Finite v)"
    and lo: "1600000000 \<le> v"
  shows "v = round64 (x * of_nat (n1 * n2)) / of_nat m"
proof -
  define w where "w = round64 (x * of_nat (n1 * n2))"
  from vco have f: "fdiv (double_of (x * of_nat (n1 * n2))) (of_nat m) = Finite v"
    unfolding vco_freq_of_PyFloat by simp
  then have prod: "double_of (x * of_nat (n1 * n2)) = Finite w"
    unfolding w_def
    by (cases "double_of (x * of_nat (n1 * n2))") (simp_all add: double_of_Finite)
  with f have "double_of (w / of_nat m) = Finite v"
    by simp
  then have v: "v = round64 (w / of_nat m)"
    by (rule double_of_Finite)
  with lo have "700000000 \<le> w / of_nat m"
    by (intro round64_big) simp
  moreover from grid_factors(3) [OF p] have m: "m = 1 \<or> m = 2" .
  ultimately have w: "700000000 \<le> w" and wm: "1 \<le> w / of_nat m"
    by auto
  then have w1: "1 \<le> w"
    by simp
  from w have x1: "1 \<le> x * of_nat (n1 * n2)"
    unfolding w_def by (intro round64_small) simp
  from round64_normal [OF x1] obtain i
    where i: "w = of_int i * pow2 (ilog2 w - 52)"
    unfolding w_def by blast
  have "round64 (w / of_nat m) = w / of_nat m"
  proof (cases "m = 1")
    case True
    from w1 i have "round64 w = w"
      by (rule round64_exact)
    with True show ?thesis by simp
  next
    case False
    with m have m2: "m = 2" by simp
    have half: "pow2 (- 1) = 1 / 2"
      by (simp add: pow2_def)
    from wm m2 have "1 \<le> w * pow2 (- 1)"
      unfolding half by simp
    with w1 i have "round64 (w * pow2 (- 1)) = w * pow2 (- 1)"
      by (rule round64_scale)
    then have "round64 (w / 2) = w / 2"
      unfolding half by simp
    with m2 show ?thesis by simp
  qed
  with v show ?thesis
    unfolding w_def by simp
qed

subsection \<open>Evaluation on literals\<close>

text \<open>
  Below \<open>10^15\<close> no operation overflows, and floor and ceiling of a quotient of two literals
  are computed by integer division.
\<close>

lemma floor_rat_numeral:
  "\<lfloor>(numeral a :: rat) / numeral b\<rfloor> = numeral a div numeral b"
  using floor_divide_of_int_eq [of "numeral a" "numeral b", where ?'a = rat] by simp

lemma ceiling_rat_numeral:
  "\<lceil>(numeral a :: rat) / numeral b\<rceil> = - (- numeral a div numeral b)"
  using ceiling_divide_eq_div [of "numeral a" "numeral b", where ?'a = rat] by simp

lemma double_of_small: "\<bar>x\<bar> \<le> 10 ^ 15 \<Longrightarrow> double_of x = Finite (round64 x)"
  unfolding double_of_def by auto

lemmas round_eval = double_of_small round64_def ilog2_def round_half_even_def pow2_def
  bit_length.simps floor_rat_numeral ceiling_rat_numeral

lemmas compute_config_eval = compute_config_def vco_freq_of_def linerate_of_def mk_config_def
  raise_if_infinite_def no_config_found_def

text \<open>
  The float product is rounded. \<open>100000000.1\<close> denotes the double
  \<open>3355443203355443 / 2^25\<close>; twenty times that lies halfway between the doubles
  \<open>2000000002 - 2^(-22)\<close> and \<open>2000000002\<close> and is rounded to the latter, so that a line rate
  of \<open>4000000004.0\<close> is met with \<open>d = 1\<close>.
\<close>

lemma compute_config_rounds:
  "compute_config (PyFloat (Finite (3355443203355443 / 33554432)))
                  (PyFloat (Finite 4000000004)) =
     Inr \<lparr>cfg_n1 = 4, cfg_n2 = 5, cfg_m = 1, cfg_d = 1, cfg_vco_freq = Finite 2000000002,
          cfg_clkin = PyFloat (Finite (3355443203355443 / 33554432)),
          cfg_linerate = PyFloat (Finite 4000000004)\<rparr>"
  by (simp add: compute_config_eval round_eval)

lemma run_100MHz_1Gbps_int:
  "compute_config (PyInt 100000000) (PyInt 1000000000) =
     Inr \<lparr>cfg_n1 = 4, cfg_n2 = 5, cfg_m = 1, cfg_d = 4, cfg_vco_freq = Finite 2000000000,
          cfg_clkin = PyInt 100000000, cfg_linerate = PyInt 1000000000\<rparr>"
  by (simp add: compute_config_eval round_eval)

lemma run_100MHz_1Gbps_float:
  "compute_config (PyFloat (Finite 100000000)) (PyFloat (Finite 1000000000)) =
     Inr \<lparr>cfg_n1 = 4, cfg_n2 = 5, cfg_m = 1, cfg_d = 4, cfg_vco_freq = Finite 2000000000,
          cfg_clkin = PyFloat (Finite 100000000),
          cfg_linerate = PyFloat (Finite 1000000000)\<rparr>"
  by (simp add: compute_config_eval round_eval)

subsection \<open>The claims\<close>

text \<open>
  Claim C1. Whenever \<open>compute_config\<close> returns a configuration \<open>c\<close>: its \<open>vco_freq\<close> is the
  value of \<open>refclk_freq*(n1*n2)/m\<close> for the returned \<open>n1\<close>, \<open>n2\<close>, \<open>m\<close>, and is a finite float
  \<open>v\<close> in \<open>[1.6e9, 3.3e9]\<close>; \<open>vco_freq*2/d == linerate\<close> holds for the returned \<open>d\<close>; \<open>clkin\<close>
  and \<open>linerate\<close> are the two arguments; the four settings are taken from \<open>n1 \<in> {4, 5}\<close>,
  \<open>n2 \<in> {1..5}\<close>, \<open>m \<in> {1, 2}\<close>, \<open>d \<in> {1, 2, 4, 8, 16}\<close>; and the combination is the first
  feasible one of the grid in nested order: no combination that precedes it (smaller \<open>n1\<close>,
  then smaller \<open>n2\<close>, then smaller \<open>m\<close>, then smaller \<open>d\<close>) satisfies both constraints.

  The expressions are evaluated as Python evaluates them. What that means in exact
  arithmetic is part of the statement: the float \<open>vco_freq*2/d\<close> is the rational
  \<open>v * 2 / d\<close>; for an int \<open>refclk_freq\<close>, \<open>v\<close> is the rational \<open>refclk_freq * (n1 * n2) / m\<close>;
  for a float \<open>refclk_freq\<close>, \<open>v\<close> is the rounded product divided by \<open>m\<close>.
\<close>

theorem compute_config_first_valid:
  assumes "compute_config refclk_freq linerate = Inr c"
  shows "vco_freq_of refclk_freq (cfg_n1 c) (cfg_n2 c) (cfg_m c) = Inr (cfg_vco_freq c)
       \<and> (\<exists>v. cfg_vco_freq c = Finite v \<and> 1600000000 \<le> v \<and> v \<le> 3300000000
              \<and> linerate_of (cfg_vco_freq c) (cfg_d c) = Finite (v * 2 / of_nat (cfg_d c))
              \<and> (\<forall>k. refclk_freq = PyInt k \<longrightarrow>
                    v = of_int k * of_nat (cfg_n1 c * cfg_n2 c) / of_nat (cfg_m c))
              \<and> (\<forall>x. refclk_freq = PyFloat (Finite x) \<longrightarrow>
                    v = round64 (x * of_nat (cfg_n1 c * cfg_n2 c)) / of_nat (cfg_m c)))
       \<and> float_eq (linerate_of (cfg_vco_freq c) (cfg_d c)) linerate
       \<and> cfg_clkin c = refclk_freq \<and> cfg_linerate c = linerate
       \<and> cfg_n1 c \<in> {4, 5} \<and> cfg_n2 c \<in> {1, 2, 3, 4, 5}
       \<and> cfg_m c \<in> {1, 2} \<and> cfg_d c \<in> {1, 2, 4, 8, 16}
       \<and> first_feasible refclk_freq linerate = Some (cfg_n1 c, cfg_n2 c, cfg_m c, cfg_d c)
       \<and> (\<forall>q \<in> set grid. precedes q (cfg_n1 c, cfg_n2 c, cfg_m c, cfg_d c)
             \<longrightarrow> \<not> feasible refclk_freq linerate q)"
proof -
  from assms have "search refclk_freq linerate grid = Inr (Some c)"
    using compute_config_cases [of refclk_freq linerate] by auto
  then obtain p where found: "find (feasible refclk_freq linerate) grid = Some p"
    and res: "result_at refclk_freq linerate p = Inr (Some c)"
    using search_result by blast
  obtain n1 n2 m d where p: "p = (n1, n2, m, d)"
    by (cases p) auto
  from res obtain vco where vco: "vco_freq_of refclk_freq n1 n2 m = Inr vco"
    and c: "c = mk_config refclk_freq linerate n1 n2 m d vco"
    unfolding p by (auto split: sum.splits)
  have fields: "cfg_n1 c = n1" "cfg_n2 c = n2" "cfg_m c = m" "cfg_d c = d"
    "cfg_vco_freq c = vco" "cfg_clkin c = refclk_freq" "cfg_linerate c = linerate"
    unfolding c mk_config_def by simp_all
  from found have feas: "feasible refclk_freq linerate (n1, n2, m, d)"
    and mem: "(n1, n2, m, d) \<in> set grid"
    unfolding p by (rule find_Some_holds, rule find_Some_member)
  have earlier: "\<not> feasible refclk_freq linerate q"
    if "q \<in> set grid" and "precedes q (n1, n2, m, d)" for q
    using grid_sorted found [unfolded p] that precedes_asym by (rule find_sorted_first)
  have ranges: "n1 \<in> {4, 5} \<and> n2 \<in> {1, 2, 3, 4, 5} \<and> m \<in> {1, 2} \<and> d \<in> {1, 2, 4, 8, 16}"
    using mem unfolding set_grid .
  from feas vco have inr: "vco_in_range vco" and eq: "float_eq (linerate_of vco d) linerate"
    by simp_all
  from inr obtain v where v: "vco = Finite v" and lo: "1600000000 \<le> v"
    and hi: "v \<le> 3300000000"
    by (cases vco) simp_all
  from vco lo obtain y where "1 \<le> y" and "v = round64 y"
    unfolding v by (rule vco_is_rounded)
  then have line: "linerate_of vco d = Finite (v * 2 / of_nat d)"
    unfolding v using lo hi ranges by (intro linerate_exact) simp_all
  have int_exact: "v = of_int k * of_nat (n1 * n2) / of_nat m" if "refclk_freq = PyInt k" for k
    using mem vco [unfolded that v] lo hi by (rule vco_exact_int(1))
  have float_once: "v = round64 (x * of_nat (n1 * n2)) / of_nat m"
    if "refclk_freq = PyFloat (Finite x)" for x
    using mem vco [unfolded that v] lo by (rule vco_exact_float)
  from v lo hi line int_exact float_once
  have "\<exists>v. vco = Finite v \<and> 1600000000 \<le> v \<and> v \<le> 3300000000
              \<and> linerate_of vco d = Finite (v * 2 / of_nat d)
              \<and> (\<forall>k. refclk_freq = PyInt k \<longrightarrow> v = of_int k * of_nat (n1 * n2) / of_nat m)
              \<and> (\<forall>x. refclk_freq = PyFloat (Finite x) \<longrightarrow>
                    v = round64 (x * of_nat (n1 * n2)) / of_nat m)"
    by blast
  with vco eq ranges earlier found show ?thesis
    unfolding fields first_feasible_def p by blast
qed

text \<open>
  An instance: a 100 MHz reference and the line rate \<open>5e9\<close> that \<open>LunaArtix7SerDes\<close> asks
  for give \<open>n1 = 5\<close>, \<open>n2 = 5\<close>, \<open>m = 1\<close>, \<open>d = 1\<close> and a VCO frequency of 2.5 GHz.
\<close>

theorem compute_config_first_valid_witness:
  "compute_config (PyFloat (Finite 100000000)) (PyFloat (Finite 5000000000)) =
     Inr \<lparr>cfg_n1 = 5, cfg_n2 = 5, cfg_m = 1, cfg_d = 1, cfg_vco_freq = Finite 2500000000,
          cfg_clkin = PyFloat (Finite 100000000),
          cfg_linerate = PyFloat (Finite 5000000000)\<rparr>
   \<and> first_feasible (PyFloat (Finite 100000000)) (PyFloat (Finite 5000000000)) = Some (5, 5, 1, 1)
   \<and> \<not> feasible (PyFloat (Finite 100000000)) (PyFloat (Finite 5000000000)) (4, 5, 2, 16)"
proof -
  let ?c = "\<lparr>cfg_n1 = 5, cfg_n2 = 5, cfg_m = 1, cfg_d = 1, cfg_vco_freq = Finite 2500000000,
             cfg_clkin = PyFloat (Finite 100000000),
             cfg_linerate = PyFloat (Finite 5000000000)\<rparr>"
  have run: "compute_config (PyFloat (Finite 100000000)) (PyFloat (Finite 5000000000)) = Inr ?c"
    by (simp add: compute_config_eval round_eval)
  note valid = compute_config_first_valid [OF run]
  from valid have first:
    "first_feasible (PyFloat (Finite 100000000)) (PyFloat (Finite 5000000000)) = Some (5, 5, 1, 1)"
    by simp
  from valid have earlier: "\<forall>q \<in> set grid. precedes q (5, 5, 1, 1) \<longrightarrow>
      \<not> feasible (PyFloat (Finite 100000000)) (PyFloat (Finite 5000000000)) q"
    by simp
  have "(4, 5, 2, 16) \<in> set grid" and "precedes (4, 5, 2, 16) (5, 5, 1, 1)"
    by (simp_all add: set_grid)
  with earlier
  have "\<not> feasible (PyFloat (Finite 100000000)) (PyFloat (Finite 5000000000)) (4, 5, 2, 16)"
    by blast
  with run first show ?thesis
    by blast
qed

text \<open>
  Claim C6, as the code has it. \<open>compute_config\<close> fails exactly when no combination of the
  grid satisfies both constraints, and otherwise returns a complete configuration. A failure
  is the \<open>ValueError\<close> that names the requested pair (as \<open>refclk_freq/1e6\<close> and
  \<open>linerate/1e9\<close>), or Python's \<open>OverflowError\<close>, which needs an int argument too large
  for a float: with int arguments below \<open>2^1000\<close> in magnitude, and with float arguments, the
  failure is the \<open>ValueError\<close>. For a 100 MHz reference and a line rate of 1 Gbps, given as
  ints or as floats, the search succeeds, with \<open>n1 = 4\<close>, \<open>n2 = 5\<close>, \<open>m = 1\<close>, \<open>d = 4\<close> and a
  VCO frequency of 2 GHz.
\<close>

theorem compute_config_fails_iff_infeasible:
  "((\<exists>e. compute_config refclk_freq linerate = Inl e)
      \<longleftrightarrow> (\<forall>p \<in> set grid. \<not> feasible refclk_freq linerate p))
   \<and> ((\<exists>c. compute_config refclk_freq linerate = Inr c)
      \<longleftrightarrow> (\<exists>p \<in> set grid. feasible refclk_freq linerate p))
   \<and> (\<forall>e. compute_config refclk_freq linerate = Inl e \<longrightarrow>
         e = OverflowError
         \<or> (\<exists>mhz gbps. py_div_float refclk_freq 1000000 = Inr mhz
              \<and> py_div_float linerate 1000000000 = Inr gbps \<and> e = ValueError mhz gbps))
   \<and> ((\<forall>k. refclk_freq = PyInt k \<longrightarrow> \<bar>k\<bar> < 2 ^ 1000)
       \<and> (\<forall>k. linerate = PyInt k \<longrightarrow> \<bar>k\<bar> < 2 ^ 1000)
       \<and> (\<forall>p \<in> set grid. \<not> feasible refclk_freq linerate p) \<longrightarrow>
         (\<exists>mhz gbps. py_div_float refclk_freq 1000000 = Inr mhz
              \<and> py_div_float linerate 1000000000 = Inr gbps
              \<and> compute_config refclk_freq linerate = Inl (ValueError mhz gbps)))
   \<and> compute_config (PyInt 100000000) (PyInt 1000000000) =
       Inr \<lparr>cfg_n1 = 4, cfg_n2 = 5, cfg_m = 1, cfg_d = 4, cfg_vco_freq = Finite 2000000000,
            cfg_clkin = PyInt 100000000, cfg_linerate = PyInt 1000000000\<rparr>
   \<and> compute_config (PyFloat (Finite 100000000)) (PyFloat (Finite 1000000000)) =
       Inr \<lparr>cfg_n1 = 4, cfg_n2 = 5, cfg_m = 1, cfg_d = 4, cfg_vco_freq = Finite 2000000000,
            cfg_clkin = PyFloat (Finite 100000000),
            cfg_linerate = PyFloat (Finite 1000000000)\<rparr>"
proof -
  let ?r = refclk_freq and ?l = linerate
  let ?none = "\<forall>p \<in> set grid. \<not> feasible ?r ?l p"
  have infeasible_if_failed: ?none if "compute_config ?r ?l = Inl e" for e
  proof -
    from that compute_config_cases [of ?r ?l]
    consider "search ?r ?l grid = Inr None" | e' where "search ?r ?l grid = Inl e'"
      by auto
    then show ?thesis
    proof cases
      case 1
      then show ?thesis unfolding search_no_result by blast
    next
      case 2
      then obtain p where "p \<in> set grid" and "raises ?r p"
        using search_raised by blast
      then show ?thesis
        using raising_excludes_feasible [of _ _ _ _ ?r _ _ _ _ ?l]
        by (metis prod_cases4)
    qed
  qed
  have failed_if_infeasible: "\<exists>e. compute_config ?r ?l = Inl e" if ?none
  proof -
    have "search ?r ?l grid \<noteq> Inr (Some c)" for c
      using search_result [of ?r ?l grid c] that find_Some_holds find_Some_member
      by metis
    with compute_config_cases [of ?r ?l] show ?thesis
      by auto
  qed
  have returned_if_feasible: "\<exists>c. compute_config ?r ?l = Inr c" if "\<not> ?none"
    using that infeasible_if_failed by (cases "compute_config ?r ?l") auto
  have a: "(\<exists>e. compute_config ?r ?l = Inl e) \<longleftrightarrow> ?none"
    using infeasible_if_failed failed_if_infeasible by blast
  have b: "(\<exists>c. compute_config ?r ?l = Inr c) \<longleftrightarrow> (\<exists>p \<in> set grid. feasible ?r ?l p)"
    using returned_if_feasible failed_if_infeasible by (metis Inl_Inr_False)
  have kinds: "no_config_found ?r ?l = OverflowError
      \<or> (\<exists>mhz gbps. py_div_float ?r 1000000 = Inr mhz
            \<and> py_div_float ?l 1000000000 = Inr gbps
            \<and> no_config_found ?r ?l = ValueError mhz gbps)"
  proof -
    have conv: "py_div_float x c = Inl e \<Longrightarrow> e = OverflowError" for x c e
      by (cases x) (auto simp: raise_if_infinite_def split: if_splits sum.splits)
    show ?thesis
      unfolding no_config_found_def using conv
      by (auto split: sum.splits)
  qed
  have raised: "e = OverflowError" if "search ?r ?l grid = Inl e" for e
  proof -
    from that obtain p where "find (\<lambda>p. raises ?r p \<or> feasible ?r ?l p) grid = Some p"
      and res: "result_at ?r ?l p = Inl e"
      unfolding search_def by (auto split: option.splits)
    obtain n1 n2 m d where p: "p = (n1, n2, m, d)"
      by (cases p) auto
    from res have "vco_freq_of ?r n1 n2 m = Inl e"
      unfolding p by (auto split: sum.splits)
    then show ?thesis
      by (cases ?r)
         (auto simp: vco_freq_of_PyInt vco_freq_of_PyFloat raise_if_infinite_def
               split: if_splits)
  qed
  have c: "e = OverflowError
         \<or> (\<exists>mhz gbps. py_div_float ?r 1000000 = Inr mhz
              \<and> py_div_float ?l 1000000000 = Inr gbps \<and> e = ValueError mhz gbps)"
    if "compute_config ?r ?l = Inl e" for e
    using that compute_config_cases [of ?r ?l] kinds raised by auto
  have d: "\<exists>mhz gbps. py_div_float ?r 1000000 = Inr mhz
              \<and> py_div_float ?l 1000000000 = Inr gbps
              \<and> compute_config ?r ?l = Inl (ValueError mhz gbps)"
    if small_r: "\<forall>k. ?r = PyInt k \<longrightarrow> \<bar>k\<bar> < 2 ^ 1000"
      and small_l: "\<forall>k. ?l = PyInt k \<longrightarrow> \<bar>k\<bar> < 2 ^ 1000" and none: ?none
  proof -
    from small_r have "\<forall>p \<in> set grid. \<not> raises ?r p"
      using no_raise_when_small by (metis prod_cases4)
    with none have "search ?r ?l grid = Inr None"
      unfolding search_no_result by blast
    then have fail: "compute_config ?r ?l = Inl (no_config_found ?r ?l)"
      unfolding compute_config_search by simp
    from py_div_float_small [OF small_r] obtain mhz
      where mhz: "py_div_float ?r 1000000 = Inr mhz" by blast
    from py_div_float_small [OF small_l] obtain gbps
      where gbps: "py_div_float ?l 1000000000 = Inr gbps" by blast
    from mhz gbps have "no_config_found ?r ?l = ValueError mhz gbps"
      unfolding no_config_found_def by simp
    with fail mhz gbps show ?thesis by simp
  qed
  from a b c d run_100MHz_1Gbps_int run_100MHz_1Gbps_float
  show ?thesis
    by blast
qed

text \<open>
  An instance: from a 25 MHz reference no VCO frequency of the grid reaches 1.6 GHz, and the
  search for 5 Gbps fails.
\<close>

theorem compute_config_fails_iff_infeasible_witness:
  "compute_config (PyFloat (Finite 25000000)) (PyFloat (Finite 5000000000)) =
     Inl (ValueError (Finite 25) (Finite 5))
   \<and> \<not> feasible (PyFloat (Finite 25000000)) (PyFloat (Finite 5000000000)) (5, 5, 1, 1)"
proof -
  have run: "compute_config (PyFloat (Finite 25000000)) (PyFloat (Finite 5000000000)) =
     Inl (ValueError (Finite 25) (Finite 5))"
    by (simp add: compute_config_eval round_eval)
  have "(5, 5, 1, 1) \<in> set grid"
    by (simp add: set_grid)
  with run compute_config_fails_iff_infeasible
    [of "PyFloat (Finite 25000000)" "PyFloat (Finite 5000000000)"]
  show ?thesis
    by blast
qed

text \<open>The example of claim C6 does not fail.\<close>

theorem compute_config_100MHz_1Gbps_succeeds:
  "\<not> (\<exists>e. compute_config (PyInt 100000000) (PyInt 1000000000) = Inl e)"
  by (simp add: run_100MHz_1Gbps_int)

section \<open>The wait timer\<close>

lemma bits_for_62: "bits_for 62 = 6"
  by (simp add: bits_for_def bit_length.simps)

lemma bits_for_125000: "bits_for 125000 = 17"
  by (simp add: bits_for_def bit_length.simps)

text \<open>
  Claim C2 says that the counter decrements by one per tick while \<open>wait\<close> is asserted and
  that \<open>done\<close> becomes true exactly \<open>T\<close> ticks after reset. The code adds one instead
  (\<open>count.eq(count + 1)\<close>), so the counter runs from \<open>T\<close> up to the end of its range and
  wraps to zero. For the settle delay of the bringup controllers, \<open>T = 62\<close> (500 ns at
  125 MHz, a 6-bit counter): the first tick takes the counter from 62 to 63, not to 61, and
  \<open>done\<close> is true after two ticks with \<open>wait\<close> asserted, not after 62. Deasserting \<open>wait\<close>
  does reload the counter with \<open>T\<close>.
\<close>

theorem WaitTimer_62_counts_up:
  "wt_count (WaitTimer_tick 62 True (WaitTimer_reset 62)) = 63
   \<and> \<not> WaitTimer_done (WaitTimer_run 62 [True] (WaitTimer_reset 62))
   \<and> WaitTimer_done (WaitTimer_run 62 [True, True] (WaitTimer_reset 62))
   \<and> WaitTimer_tick 62 False (WaitTimer_run 62 [True, True] (WaitTimer_reset 62))
       = WaitTimer_reset 62"
  by (simp add: WaitTimer_run_def WaitTimer_tick_def WaitTimer_reset_def WaitTimer_done_def
      bits_for_62)

section \<open>The DRP mux\<close>

lemma DRPMux_fold:
  "fold (DRPMux_case sel bus) (enumerate k xs) (mux, backs) =
     (if k \<le> unat sel \<and> unat sel < k + length xs
      then (xs ! (unat sel - k), backs[unat sel := bus]) else (mux, backs))"
proof (induction xs arbitrary: k mux backs)
  case Nil
  show ?case by auto
next
  case (Cons x xs)
  have step: "DRPMux_case sel bus (k, x) (mux, backs) =
      (if unat sel = k then (x, backs[k := bus]) else (mux, backs))"
    by (simp add: DRPMux_case_def)
  show ?case
    by (auto simp: step Cons.IH nth_Cons')
qed

lemma DRPMux_connect_eq:
  "DRPMux_connect sel interfaces bus =
     (if unat sel < length interfaces
      then (interfaces ! unat sel, (replicate (length interfaces) drp_p2c_idle)[unat sel := bus])
      else (drp_c2p_idle, replicate (length interfaces) drp_p2c_idle))"
  unfolding DRPMux_connect_def DRPMux_fold by simp

text \<open>
  Claim C7, as the code has it. With at most 16 requesters registered, a selector below the
  number of requesters connects exactly that requester: the bus carries its \<open>en\<close>, \<open>we\<close>,
  \<open>addr\<close> and \<open>di\<close>, and it alone gets the bus's \<open>rdy\<close> and \<open>do\<close> back; every other
  requester sees \<open>rdy = 0\<close> and \<open>do = 0\<close>. A selector that names no requester connects none,
  and the bus lines are all zero. The mux holds no state: what a requester gets back in a
  tick is the bus's \<open>rdy\<close> and \<open>do\<close> of that same tick or nothing.
\<close>

theorem DRPMux_connects_selected:
  assumes "length interfaces \<le> 16"
  shows "\<exists>mux backs. DRPMux_elaborate sel interfaces bus = Inr (mux, backs)
     \<and> length backs = length interfaces
     \<and> (unat sel < length interfaces \<longrightarrow>
          mux = interfaces ! unat sel \<and> backs ! unat sel = bus)
     \<and> (\<forall>i < length interfaces. i \<noteq> unat sel \<longrightarrow> backs ! i = drp_p2c_idle)
     \<and> (length interfaces \<le> unat sel \<longrightarrow>
          mux = drp_c2p_idle \<and> (\<forall>i < length interfaces. backs ! i = drp_p2c_idle))"
  using assms unfolding DRPMux_elaborate_def DRPMux_connect_eq by auto

theorem DRPMux_connects_selected_witness:
  "DRPMux_elaborate 1
     [\<lparr>drp_en = True, drp_we = False, drp_addr = 0x011, drp_di = 0\<rparr>,
      \<lparr>drp_en = True, drp_we = True, drp_addr = 0x020, drp_di = 5\<rparr>]
     \<lparr>drp_rdy = True, drp_do = 0x1234\<rparr> =
   Inr (\<lparr>drp_en = True, drp_we = True, drp_addr = 0x020, drp_di = 5\<rparr>,
        [drp_p2c_idle, \<lparr>drp_rdy = True, drp_do = 0x1234\<rparr>])"
proof -
  let ?a = "\<lparr>drp_en = True, drp_we = False, drp_addr = 0x011, drp_di = 0\<rparr>"
  let ?b = "\<lparr>drp_en = True, drp_we = True, drp_addr = 0x020, drp_di = 5\<rparr>"
  let ?bus = "\<lparr>drp_rdy = True, drp_do = 0x1234\<rparr>"
  have "length [?a, ?b] \<le> 16"
    by simp
  from DRPMux_connects_selected [OF this, of 1 ?bus]
  obtain mux backs where run: "DRPMux_elaborate 1 [?a, ?b] ?bus = Inr (mux, backs)"
    and len: "length backs = 2" and mux: "mux = ?b" and sel: "backs ! 1 = ?bus"
    and rest: "backs ! 0 = drp_p2c_idle"
    by auto
  from len obtain x y where "backs = [x, y]"
    by (auto simp: length_Suc_conv numeral_2_eq_2)
  with sel rest have "backs = [drp_p2c_idle, ?bus]"
    by simp
  with run mux show ?thesis
    by simp
qed

theorem DRPMux_selector_names_no_requester:
  "DRPMux_elaborate 2
     [\<lparr>drp_en = True, drp_we = False, drp_addr = 0x011, drp_di = 0\<rparr>,
      \<lparr>drp_en = True, drp_we = True, drp_addr = 0x020, drp_di = 5\<rparr>]
     \<lparr>drp_rdy = True, drp_do = 0x1234\<rparr> =
   Inr (drp_c2p_idle, [drp_p2c_idle, drp_p2c_idle])"
  by (simp add: DRPMux_elaborate_def DRPMux_connect_eq)

section \<open>The datapaths\<close>

lemma bit_Repl: "bit (Repl b :: 'a::len word) n \<longleftrightarrow> n < LENGTH('a) \<and> b"
  unfolding Repl_def by (auto simp: bit_horner_sum_bit_word_iff)

lemma word_select_assign_same:
  "i < 2 \<Longrightarrow> word_select (assign_word_select w i v) i = v"
  unfolding word_select_def assign_word_select_def
  by (rule bit_word_eqI) (auto simp: bit_simps)

lemma word_select_assign_other:
  assumes "i < 2" "j < 2" "i \<noteq> j"
  shows "word_select (assign_word_select w j v) i = word_select w i"
proof -
  from assms consider "i = 0" "j = 1" | "i = 1" "j = 0"
    by linarith
  then show ?thesis
  proof cases
    case 1
    show ?thesis
      unfolding word_select_def assign_word_select_def 1
      by (rule bit_word_eqI) (auto simp: bit_simps)
  next
    case 2
    show ?thesis
      unfolding word_select_def assign_word_select_def 2
      by (rule bit_word_eqI) (auto simp: bit_simps dest: bit_imp_le_length)
  qed
qed

lemma bit_assign_bit:
  "i < 2 \<Longrightarrow> bit (assign_bit w j b) i = (if i = j then b else bit w i)"
  unfolding assign_bit_def by (auto simp: bit_simps)

lemma nwords_lanes: "[0..<nwords] = [0, 1]"
  by (simp add: nwords_def upt_rec)

text \<open>
  Claim C4. In every tick and for each of the two lanes, the byte and the control bit that
  \<open>source\<close> carries for the lane are those of \<open>SUB\<close> when the lane's bit of \<open>rx_code_error\<close>
  is set, and the lane's byte of \<open>rx_data\<close> and bit of \<open>rx_ctrl\<close> otherwise; \<open>source.valid\<close>
  is always 1. The result depends on the signals of the same tick alone.
\<close>

theorem GTP_rx_datapath_substitutes:
  assumes "i < nwords"
  shows "source_valid (GTP_rx_datapath SUB rx_data rx_ctrl rx_code_error)
     \<and> word_select (source_data (GTP_rx_datapath SUB rx_data rx_ctrl rx_code_error)) i =
         (if bit rx_code_error i then sym_value SUB else word_select rx_data i)
     \<and> bit (source_ctrl (GTP_rx_datapath SUB rx_data rx_ctrl rx_code_error)) i =
         (if bit rx_code_error i then sym_ctrl SUB else bit rx_ctrl i)"
proof -
  from assms consider "i = 0" | "i = 1"
    unfolding nwords_def by fastforce
  then show ?thesis
  proof cases
    case 1
    show ?thesis
      unfolding GTP_rx_datapath_def nwords_lanes 1
      by (simp add: GTP_rx_lane_def word_select_assign_same word_select_assign_other
          bit_assign_bit)
  next
    case 2
    show ?thesis
      unfolding GTP_rx_datapath_def nwords_lanes 2
      by (simp add: GTP_rx_lane_def word_select_assign_same word_select_assign_other
          bit_assign_bit)
  qed
qed

theorem GTP_rx_datapath_substitutes_witness:
  "1 < nwords
   \<and> word_select (source_data (GTP_rx_datapath \<lparr>sym_value = 0xFE, sym_ctrl = True\<rparr>
        0x1234 0 2)) 1 = 0xFE
   \<and> bit (source_ctrl (GTP_rx_datapath \<lparr>sym_value = 0xFE, sym_ctrl = True\<rparr> 0x1234 0 2)) 1"
proof -
  have lane: "1 < nwords"
    by (simp add: nwords_def)
  have err: "bit (2 :: 2 word) 1"
    by (simp add: bit_iff_odd)
  from GTP_rx_datapath_substitutes [OF lane, of "\<lparr>sym_value = 0xFE, sym_ctrl = True\<rparr>"
      "0x1234" 0 2] lane err
  show ?thesis
    by simp
qed

text \<open>
  Claim C8. While \<open>tx_gpio_en\<close> is high, \<open>tx_enable_8b10b\<close> is 0 and every bit of
  \<open>tx_data\<close>, of \<open>tx_char_disp_mode\<close> and of \<open>tx_char_disp_val\<close> is the bit \<open>tx_gpio\<close> (the
  K-character flags \<open>tx_ctrl\<close> are 0); while it is low, \<open>tx_enable_8b10b\<close> is 1, \<open>tx_data\<close>
  and \<open>tx_ctrl\<close> are \<open>sink.data\<close> and \<open>sink.ctrl\<close>, and the two disparity fields are 0. So
  line coding is enabled exactly when the raw mode is off, and \<open>sink.ready\<close> is always 1.
\<close>

theorem GTP_tx_datapath_modes:
  "sink_ready (GTP_tx_datapath tx_gpio_en tx_gpio sink_data sink_ctrl)
   \<and> tx_enable_8b10b (GTP_tx_datapath tx_gpio_en tx_gpio sink_data sink_ctrl) = (\<not> tx_gpio_en)
   \<and> (tx_gpio_en \<longrightarrow>
        (\<forall>n < 16. bit (tx_data (GTP_tx_datapath tx_gpio_en tx_gpio sink_data sink_ctrl)) n
                    = tx_gpio)
      \<and> (\<forall>n < 2. bit (tx_char_disp_mode
                        (GTP_tx_datapath tx_gpio_en tx_gpio sink_data sink_ctrl)) n = tx_gpio)
      \<and> (\<forall>n < 2. bit (tx_char_disp_val
                        (GTP_tx_datapath tx_gpio_en tx_gpio sink_data sink_ctrl)) n = tx_gpio)
      \<and> tx_ctrl (GTP_tx_datapath tx_gpio_en tx_gpio sink_data sink_ctrl) = 0)
   \<and> (\<not> tx_gpio_en \<longrightarrow>
        tx_data (GTP_tx_datapath tx_gpio_en tx_gpio sink_data sink_ctrl) = sink_data
      \<and> tx_ctrl (GTP_tx_datapath tx_gpio_en tx_gpio sink_data sink_ctrl) = sink_ctrl
      \<and> tx_char_disp_mode (GTP_tx_datapath tx_gpio_en tx_gpio sink_data sink_ctrl) = 0
      \<and> tx_char_disp_val (GTP_tx_datapath tx_gpio_en tx_gpio sink_data sink_ctrl) = 0)"
  by (simp add: GTP_tx_datapath_def bit_Repl)

theorem GTP_tx_datapath_modes_witness:
  "\<not> tx_enable_8b10b (GTP_tx_datapath True True 0x1234 1)
   \<and> bit (tx_data (GTP_tx_datapath True True 0x1234 1)) 15
   \<and> bit (tx_char_disp_mode (GTP_tx_datapath True True 0x1234 1)) 1
   \<and> bit (tx_char_disp_val (GTP_tx_datapath True True 0x1234 1)) 0
   \<and> tx_ctrl (GTP_tx_datapath True True 0x1234 1) = 0
   \<and> tx_data (GTP_tx_datapath False True 0x1234 1) = 0x1234
   \<and> tx_ctrl (GTP_tx_datapath False True 0x1234 1) = 1"
  using GTP_tx_datapath_modes [of True True "0x1234" 1]
    GTP_tx_datapath_modes [of False True "0x1234" 1]
  by simp

section \<open>The bringup controllers\<close>

text \<open>
  The reset inserted by \<open>ResetInserter(reset_self)\<close> controls the domain \<open>sync\<close>; the
  registers of both controllers are driven from \<open>ss\<close>. So a tick never takes the reset
  branch.
\<close>

lemma in_reset_ss: "in_reset (ResetInserter control) Dom_ss = False"
  by (simp add: in_reset_def ResetInserter_def)

lemma GTPTXInit_tick_no_reset:
  "GTPTXInit_tick t_init t_wd i s =
     \<lparr>tx_fsm_state = tx_next (GTPTXInit_signals i s),
      self_gttxreset = gttxreset (GTPTXInit_signals i s),
      self_gttxpd = gttxpd (GTPTXInit_signals i s),
      self_txdlysreset = txdlysreset (GTPTXInit_signals i s),
      self_txphinit = txphinit (GTPTXInit_signals i s),
      self_txphalign = txphalign (GTPTXInit_signals i s),
      self_txdlyen = txdlyen (GTPTXInit_signals i s),
      self_txuserrdy = txuserrdy (GTPTXInit_signals i s),
      txphaligndone_r = txphaligndone i,
      tx_init_delay = WaitTimer_tick t_init True (tx_init_delay s),
      tx_watchdog = WaitTimer_tick t_wd (GTPTXInit_watchdog_wait i s) (tx_watchdog s)\<rparr>"
  by (simp add: GTPTXInit_tick_def in_reset_ss Let_def)

lemma GTPRXInit_tick_no_reset:
  "GTPRXInit_tick t_init t_wd i s =
     \<lparr>rx_fsm_state = rx_next (GTPRXInit_signals i s),
      drpvalue = drpvalue_next (GTPRXInit_signals i s),
      rxpmaresetdone_r = rxpmaresetdone i,
      self_gtrxreset = gtrxreset (GTPRXInit_signals i s),
      self_gtrxpd = gtrxpd (GTPRXInit_signals i s),
      self_rxdlysreset = rxdlysreset (GTPRXInit_signals i s),
      self_rxphalign = rxphalign (GTPRXInit_signals i s),
      self_rxuserrdy = rxuserrdy (GTPRXInit_signals i s),
      rx_init_delay = WaitTimer_tick t_init True (rx_init_delay s),
      rx_watchdog = WaitTimer_tick t_wd (GTPRXInit_watchdog_wait i s) (rx_watchdog s)\<rparr>"
  by (simp add: GTPRXInit_tick_def in_reset_ss Let_def)

lemma tx_done_iff: "tx_done (GTPTXInit_signals i s) = (tx_fsm_state s = TX_READY)"
  unfolding GTPTXInit_signals_def
  by (cases "tx_fsm_state s") (simp_all add: GTPTXInit_quiet_def)

lemma rx_done_iff: "rx_done (GTPRXInit_signals i s) = (rx_fsm_state s = RX_READY)"
  unfolding GTPRXInit_signals_def
  by (cases "rx_fsm_state s") (simp_all add: GTPRXInit_quiet_def)

lemma tx_next_from_READY:
  "tx_fsm_state s = TX_READY \<Longrightarrow>
     tx_next (GTPTXInit_signals i s) = (if tx_restart i then TX_POWER_DOWN else TX_READY)"
  unfolding GTPTXInit_signals_def by (simp add: GTPTXInit_quiet_def)

lemma rx_next_from_READY:
  "rx_fsm_state s = RX_READY \<Longrightarrow>
     rx_next (GTPRXInit_signals i s) = (if rx_restart i then RX_POWER_DOWN else RX_READY)"
  unfolding GTPRXInit_signals_def by (simp add: GTPRXInit_quiet_def)

lemma GTPTXInit_restart_outside_READY:
  "tx_fsm_state s \<noteq> TX_READY \<Longrightarrow>
     tx_fsm_state (GTPTXInit_tick t_init t_wd (i\<lparr>tx_restart := True\<rparr>) s) =
     tx_fsm_state (GTPTXInit_tick t_init t_wd (i\<lparr>tx_restart := False\<rparr>) s)"
  unfolding GTPTXInit_tick_no_reset GTPTXInit_signals_def
  by (cases "tx_fsm_state s") (simp_all add: GTPTXInit_quiet_def)

lemma GTPRXInit_restart_outside_READY:
  "rx_fsm_state s \<noteq> RX_READY \<Longrightarrow>
     rx_fsm_state (GTPRXInit_tick t_init t_wd (i\<lparr>rx_restart := True\<rparr>) s) =
     rx_fsm_state (GTPRXInit_tick t_init t_wd (i\<lparr>rx_restart := False\<rparr>) s)"
  unfolding GTPRXInit_tick_no_reset GTPRXInit_signals_def
  by (cases "rx_fsm_state s") (simp_all add: GTPRXInit_quiet_def)

text \<open>
  Claim C10. Each of the ports \<open>self.gttxreset\<close>, \<open>self.gttxpd\<close>, \<open>self.txdlysreset\<close>,
  \<open>self.txphinit\<close>, \<open>self.txphalign\<close>, \<open>self.txdlyen\<close>, \<open>self.txuserrdy\<close> of the
  transmitter and \<open>self.gtrxreset\<close>, \<open>self.gtrxpd\<close>, \<open>self.rxdlysreset\<close>, \<open>self.rxphalign\<close>,
  \<open>self.rxuserrdy\<close> of the receiver is a register: after every clock edge it holds the value
  the FSM gave the local signal of the same name before that edge, whatever the state and the
  inputs. The outputs follow the FSM's decision by exactly one tick.
\<close>

theorem bringup_outputs_registered:
  "self_gttxreset (GTPTXInit_tick t_init t_wd i s) = gttxreset (GTPTXInit_signals i s)
   \<and> self_gttxpd (GTPTXInit_tick t_init t_wd i s) = gttxpd (GTPTXInit_signals i s)
   \<and> self_txdlysreset (GTPTXInit_tick t_init t_wd i s) = txdlysreset (GTPTXInit_signals i s)
   \<and> self_txphinit (GTPTXInit_tick t_init t_wd i s) = txphinit (GTPTXInit_signals i s)
   \<and> self_txphalign (GTPTXInit_tick t_init t_wd i s) = txphalign (GTPTXInit_signals i s)
   \<and> self_txdlyen (GTPTXInit_tick t_init t_wd i s) = txdlyen (GTPTXInit_signals i s)
   \<and> self_txuserrdy (GTPTXInit_tick t_init t_wd i s) = txuserrdy (GTPTXInit_signals i s)
   \<and> self_gtrxreset (GTPRXInit_tick t_init t_wd' j r) = gtrxreset (GTPRXInit_signals j r)
   \<and> self_gtrxpd (GTPRXInit_tick t_init t_wd' j r) = gtrxpd (GTPRXInit_signals j r)
   \<and> self_rxdlysreset (GTPRXInit_tick t_init t_wd' j r) = rxdlysreset (GTPRXInit_signals j r)
   \<and> self_rxphalign (GTPRXInit_tick t_init t_wd' j r) = rxphalign (GTPRXInit_signals j r)
   \<and> self_rxuserrdy (GTPRXInit_tick t_init t_wd' j r) = rxuserrdy (GTPRXInit_signals j r)"
  unfolding GTPTXInit_tick_no_reset GTPRXInit_tick_no_reset by simp


lemma bits_for_500000: "bits_for 500000 = 19"
  by (simp add: bits_for_def bit_length.simps)

lemma bits_for_3: "bits_for 3 = 2"
  by (simp add: bits_for_def bit_length.simps)

lemma replicate_unfold:
  "replicate 2 x = [x, x]" "replicate 4 x = [x, x, x, x]" "replicate 5 x = [x, x, x, x, x]"
  by (simp_all add: eval_nat_numeral)

lemmas tx_eval = replicate_unfold GTPTXInit_run_def GTPTXInit_tick_no_reset GTPTXInit_signals_def
  GTPTXInit_reset_def GTPTXInit_quiet_def GTPTXInit_watchdog_wait_def GTPTXInit_reset_self_def
  WaitTimer_tick_def WaitTimer_reset_def WaitTimer_done_def

lemmas rx_eval = replicate_unfold GTPRXInit_run_def GTPRXInit_observe_def GTPRXInit_tick_no_reset
  GTPRXInit_signals_def GTPRXInit_reset_def GTPRXInit_quiet_def GTPRXInit_watchdog_wait_def
  GTPRXInit_reset_self_def WaitTimer_tick_def WaitTimer_reset_def WaitTimer_done_def

text \<open>
  Claim C3 says that \<open>restart\<close>, or the expiry of the watchdog, in any state other than
  \<open>POWER-DOWN\<close> puts the controller in \<open>POWER-DOWN\<close> one tick later. The code does not: the
  only effect of \<open>restart\<close> is the transition out of \<open>READY\<close> that the FSM itself makes, and
  the expiry of the watchdog only reloads the watchdog. With the default timers (62 and 125000
  ticks for the transmitter, 62 and 500000 for the receiver) the transmitter, two ticks after
  reset, is in \<open>WAIT-PLL-RESET\<close>; a tick with \<open>restart\<close> asserted leaves it there. The
  receiver, one tick after reset, is in \<open>DRP_READ_ISSUE\<close> and a tick with \<open>restart\<close> leaves it
  there. With a watchdog of 3 ticks the transmitter's watchdog is done one tick after reset, in
  state \<open>DRP\<close>, and the next state is \<open>WAIT-PLL-RESET\<close>.
\<close>

theorem restart_does_not_reach_the_FSM:
  "tx_fsm_state (GTPTXInit_run 62 125000
      (replicate 2
       \<lparr>tx_restart = False, tx_plllock = False, txresetdone = False, txphaligndone = False,
        tx_drp_done = True\<rparr>)
      (GTPTXInit_reset 62 125000)) = TX_WAIT_PLL_RESET
   \<and> tx_fsm_state (GTPTXInit_run 62 125000
      (replicate 2
       \<lparr>tx_restart = False, tx_plllock = False, txresetdone = False, txphaligndone = False,
        tx_drp_done = True\<rparr>
       @ [\<lparr>tx_restart = True, tx_plllock = False, txresetdone = False, txphaligndone = False,
        tx_drp_done = True\<rparr>])
      (GTPTXInit_reset 62 125000)) = TX_WAIT_PLL_RESET
   \<and> rx_fsm_state (fst (GTPRXInit_run 62 500000
      [\<lparr>rx_restart = False, rxresetdone = False, rxpmaresetdone = False,
        rx_drp_back = drp_p2c_idle\<rparr>])) = RX_DRP_READ_ISSUE
   \<and> rx_fsm_state (fst (GTPRXInit_run 62 500000
      [\<lparr>rx_restart = False, rxresetdone = False, rxpmaresetdone = False,
        rx_drp_back = drp_p2c_idle\<rparr>,
       \<lparr>rx_restart = True, rxresetdone = False, rxpmaresetdone = False,
        rx_drp_back = drp_p2c_idle\<rparr>])) = RX_DRP_READ_ISSUE
   \<and> tx_fsm_state (GTPTXInit_run 0 3
      [\<lparr>tx_restart = False, tx_plllock = False, txresetdone = False, txphaligndone = False,
        tx_drp_done = True\<rparr>]
      (GTPTXInit_reset 0 3)) = TX_DRP
   \<and> WaitTimer_done (tx_watchdog (GTPTXInit_run 0 3
      [\<lparr>tx_restart = False, tx_plllock = False, txresetdone = False, txphaligndone = False,
        tx_drp_done = True\<rparr>]
      (GTPTXInit_reset 0 3)))
   \<and> tx_fsm_state (GTPTXInit_run 0 3
      (replicate 2
       \<lparr>tx_restart = False, tx_plllock = False, txresetdone = False, txphaligndone = False,
        tx_drp_done = True\<rparr>)
      (GTPTXInit_reset 0 3)) = TX_WAIT_PLL_RESET"
  by (simp add: tx_eval rx_eval bits_for_62 bits_for_125000 bits_for_500000 bits_for_3)

section \<open>The receiver's read-modify-write sequence\<close>











section \<open>Enable and ready\<close>

lemma GTP_run_snoc:
  "GTP_run a b c (inputs @ [i]) = GTP_tick a b c i (GTP_run a b c inputs)"
  by (simp add: GTP_run_def)

lemma tx_init_GTP_run:
  "tx_init (GTP_run a b c inputs) =
     GTPTXInit_run a b (map GTP_tx_init_in inputs) (GTPTXInit_reset a b)"
proof (induction inputs rule: rev_induct)
  case Nil
  show ?case
    by (simp add: GTP_run_def GTP_reset_def GTPTXInit_run_def)
next
  case (snoc i inputs)
  then show ?case
    unfolding GTP_run_snoc by (simp add: GTP_tick_def GTPTXInit_run_def)
qed

lemma tx_ready_after_five_ticks:
  "tx_fsm_state (tx_init (GTP_run 62 125000 500000
      (replicate 5
        \<lparr>tx_enable = True, rx_enable = True, qpll_lock = True, gtp_txresetdone = True,
        gtp_txphaligndone = False, gtp_rxresetdone = False, gtp_rxpmaresetdone = False,
        rx_init_drp_back = drp_p2c_idle\<rparr>))) = TX_READY"
  unfolding tx_init_GTP_run
  by (simp add: tx_eval GTP_tx_init_in_def bits_for_62 bits_for_125000)


lemma tx_POWER_DOWN_after_restart:
  assumes "tx_fsm_state (tx_init s) = TX_READY" and "\<not> tx_enable i"
  shows "tx_fsm_state (tx_init (GTP_tick a b c i s)) = TX_POWER_DOWN"
  using assms
  by (simp add: GTP_tick_def GTPTXInit_tick_no_reset tx_next_from_READY GTP_tx_init_in_def)

lemma rx_POWER_DOWN_after_restart:
  assumes "rx_fsm_state (rx_init s) = RX_READY" and "\<not> rx_enable i"
  shows "rx_fsm_state (rx_init (GTP_tick a b c i s)) = RX_POWER_DOWN"
  using assms
  by (simp add: GTP_tick_def GTPRXInit_tick_no_reset rx_next_from_READY GTP_rx_init_in_def)

text \<open>
  Claim C9 says that in every reachable state in which an enable input is deasserted the
  ready output is deasserted. It is not so in the tick in which the enable falls: five ticks
  after reset, with the PLL locked and \<open>txresetdone\<close> high, the transmitter is in \<open>READY\<close>,
  and with \<open>tx_enable\<close> low in that tick \<open>tx_ready\<close> is still high.
\<close>

theorem tx_ready_while_enable_deasserted:
  "\<not> tx_enable \<lparr>tx_enable = False, rx_enable = True, qpll_lock = True, gtp_txresetdone = True,
        gtp_txphaligndone = False, gtp_rxresetdone = False, gtp_rxpmaresetdone = False,
        rx_init_drp_back = drp_p2c_idle\<rparr>
   \<and> GTP_tx_ready \<lparr>tx_enable = False, rx_enable = True, qpll_lock = True, gtp_txresetdone = True,
        gtp_txphaligndone = False, gtp_rxresetdone = False, gtp_rxpmaresetdone = False,
        rx_init_drp_back = drp_p2c_idle\<rparr>
      (GTP_run 62 125000 500000
      (replicate 5
        \<lparr>tx_enable = True, rx_enable = True, qpll_lock = True, gtp_txresetdone = True,
        gtp_txphaligndone = False, gtp_rxresetdone = False, gtp_rxpmaresetdone = False,
        rx_init_drp_back = drp_p2c_idle\<rparr>))"
  using tx_ready_after_five_ticks by (simp add: GTP_tx_ready_def tx_done_iff)

text \<open>
  Claim C9, as the code has it. The restart input of each controller is the negation of
  its enable input; \<open>tx_ready\<close> and \<open>rx_ready\<close> are the controllers' \<open>done\<close>, high exactly in
  state \<open>READY\<close>; \<open>LunaArtix7SerDes\<close> drives both enables with its \<open>enable\<close> and its \<open>ready\<close>
  is the conjunction of the two. A controller that is ready in a tick in which its enable is
  low is in \<open>POWER-DOWN\<close>, and not ready, one tick later; so is the top level.
\<close>

theorem ready_falls_one_tick_after_enable:
  "tx_restart (GTP_tx_init_in i) = (\<not> tx_enable i)
   \<and> rx_restart (GTP_rx_init_in i) = (\<not> rx_enable i)
   \<and> GTP_tx_ready i s = (tx_fsm_state (tx_init s) = TX_READY)
   \<and> GTP_rx_ready i s = (rx_fsm_state (rx_init s) = RX_READY)
   \<and> tx_enable (LunaArtix7SerDes_serdes_in enable i) = enable
   \<and> rx_enable (LunaArtix7SerDes_serdes_in enable i) = enable
   \<and> LunaArtix7SerDes_ready enable i s = (GTP_tx_ready i s \<and> GTP_rx_ready i s)
   \<and> (GTP_tx_ready i s \<and> \<not> tx_enable i \<longrightarrow>
        tx_fsm_state (tx_init (GTP_tick a b c i s)) = TX_POWER_DOWN
        \<and> \<not> GTP_tx_ready j (GTP_tick a b c i s))
   \<and> (GTP_rx_ready i s \<and> \<not> rx_enable i \<longrightarrow>
        rx_fsm_state (rx_init (GTP_tick a b c i s)) = RX_POWER_DOWN
        \<and> \<not> GTP_rx_ready j (GTP_tick a b c i s))
   \<and> (LunaArtix7SerDes_ready enable i s \<and> \<not> enable \<longrightarrow>
        \<not> LunaArtix7SerDes_ready enable' j
            (GTP_tick a b c (LunaArtix7SerDes_serdes_in enable i) s))"
proof -
  have ready: "GTP_tx_ready k r = (tx_fsm_state (tx_init r) = TX_READY)"
    "GTP_rx_ready k r = (rx_fsm_state (rx_init r) = RX_READY)" for k r
    by (simp_all add: GTP_tx_ready_def GTP_rx_ready_def tx_done_iff rx_done_iff)
  have wiring: "tx_restart (GTP_tx_init_in i) = (\<not> tx_enable i)"
    "rx_restart (GTP_rx_init_in i) = (\<not> rx_enable i)"
    "tx_enable (LunaArtix7SerDes_serdes_in enable i) = enable"
    "rx_enable (LunaArtix7SerDes_serdes_in enable i) = enable"
    by (simp_all add: GTP_tx_init_in_def GTP_rx_init_in_def LunaArtix7SerDes_serdes_in_def)
  have tx: "tx_fsm_state (tx_init (GTP_tick a b c k s)) = TX_POWER_DOWN"
    if "tx_fsm_state (tx_init s) = TX_READY" and "\<not> tx_enable k" for k
    using that by (rule tx_POWER_DOWN_after_restart)
  have rx: "rx_fsm_state (rx_init (GTP_tick a b c k s)) = RX_POWER_DOWN"
    if "rx_fsm_state (rx_init s) = RX_READY" and "\<not> rx_enable k" for k
    using that by (rule rx_POWER_DOWN_after_restart)
  show ?thesis
    unfolding LunaArtix7SerDes_ready_def ready wiring
    using tx [of i] rx [of i] tx [of "LunaArtix7SerDes_serdes_in enable i"] wiring
    by auto
qed

theorem ready_falls_one_tick_after_enable_witness:
  "GTP_tx_ready \<lparr>tx_enable = False, rx_enable = True, qpll_lock = True, gtp_txresetdone = True,
        gtp_txphaligndone = False, gtp_rxresetdone = False, gtp_rxpmaresetdone = False,
        rx_init_drp_back = drp_p2c_idle\<rparr>
      (GTP_run 62 125000 500000
      (replicate 5
        \<lparr>tx_enable = True, rx_enable = True, qpll_lock = True, gtp_txresetdone = True,
        gtp_txphaligndone = False, gtp_rxresetdone = False, gtp_rxpmaresetdone = False,
        rx_init_drp_back = drp_p2c_idle\<rparr>))
   \<and> tx_fsm_state (tx_init (GTP_tick 62 125000 500000
        \<lparr>tx_enable = False, rx_enable = True, qpll_lock = True, gtp_txresetdone = True,
        gtp_txphaligndone = False, gtp_rxresetdone = False, gtp_rxpmaresetdone = False,
        rx_init_drp_back = drp_p2c_idle\<rparr>
      (GTP_run 62 125000 500000
      (replicate 5
        \<lparr>tx_enable = True, rx_enable = True, qpll_lock = True, gtp_txresetdone = True,
        gtp_txphaligndone = False, gtp_rxresetdone = False, gtp_rxpmaresetdone = False,
        rx_init_drp_back = drp_p2c_idle\<rparr>)))) = TX_POWER_DOWN"
proof -
  let ?off = "\<lparr>tx_enable = False, rx_enable = True, qpll_lock = True, gtp_txresetdone = True,
        gtp_txphaligndone = False, gtp_rxresetdone = False, gtp_rxpmaresetdone = False,
        rx_init_drp_back = drp_p2c_idle\<rparr>"
  let ?s = "GTP_run 62 125000 500000 (replicate 5
        \<lparr>tx_enable = True, rx_enable = True, qpll_lock = True, gtp_txresetdone = True,
        gtp_txphaligndone = False, gtp_rxresetdone = False, gtp_rxpmaresetdone = False,
        rx_init_drp_back = drp_p2c_idle\<rparr>)"
  have ready: "GTP_tx_ready ?off ?s"
    using tx_ready_after_five_ticks by (simp add: GTP_tx_ready_def tx_done_iff)
  have off: "\<not> tx_enable ?off"
    by simp
  from ready_falls_one_tick_after_enable [of ?off ?s _ 62 125000 500000] ready off
  show ?thesis
    by blast
qed

end
